theory Spec2Isabelle
  imports Main "HOL-Library.Sublist"
begin

section \<open>Data model (ast-types)\<close>

text \<open>
  The interfaces of the type declarations, one record or datatype per interface.
  Field names carry a short prefix because several interfaces share the names
  \<open>id\<close>, \<open>type\<close>, \<open>filePath\<close> and \<open>location\<close>. Strings are lists of characters.
  The open-ended \<open>metadata\<close> bags are association lists; neither the graph builder nor
  the registry ever reads them.
\<close>

type_synonym metadata = "(string \<times> string) list"

record Position =
  line :: int
  column :: int

record Location =
  loc_start :: Position
  loc_end :: Position

record NodeLocation =
  nl_filePath :: string
  nl_start :: Position
  nl_end :: Position

datatype ASTNode =
  ASTNode (n_id: string) (n_type: string) (n_name: "string option")
    (n_location: NodeLocation) (n_children: "ASTNode list") (n_metadata: metadata)

datatype SymbolType =
  FunctionT | ClassT | VariableT | ImportT | ExportT | InterfaceT | TypeT

datatype ReferenceType =
  DefinitionRef | UsageRef | CallRef | ImportRef | ExportRef

record SymbolReference =
  r_filePath :: string
  r_location :: Location
  r_type :: ReferenceType

record ExportInfo =
  e_isDefault :: bool
  e_exportName :: "string option"
  e_exportedAs :: "string option"

record ImportInfo =
  i_source :: string
  i_isDefault :: bool
  i_importName :: "string option"
  i_importedAs :: "string option"

record Symbol =
  s_id :: string
  s_name :: string
  s_type :: SymbolType
  s_filePath :: string
  s_location :: Location
  s_references :: "SymbolReference list"
  s_exports :: "ExportInfo option"
  s_imports :: "ImportInfo option"
  s_metadata :: metadata

datatype DependencyType = DepImport | DepRequire | DepDynamicImport

record Dependency =
  d_from :: string
  d_to :: string
  d_type :: DependencyType
  d_specifiers :: "string list"

text \<open>
  \<open>FileAST\<close>: the per-file bundle. The type parameter is the representation of a
  symbol: a \<open>Symbol\<close> value when the record arrives from the parser, the address of
  the symbol object once the record is stored in the graph (see below). The fields
  \<open>exports\<close> and \<open>imports\<close> of the interface are arrays that alias some of the objects
  of \<open>symbols\<close>; no method of the graph builder reads them and they are left out.
\<close>

record 's FileAST =
  f_filePath :: string
  f_ast :: ASTNode
  f_symbols :: "'s list"
  f_dependencies :: "Dependency list"

record ParseResult =
  p_success :: bool
  p_ast :: "ASTNode option"
  p_symbols :: "Symbol list option"
  p_dependencies :: "Dependency list option"
  p_error :: "string option"

section \<open>JavaScript strings and Maps\<close>

text \<open>\<open>String.prototype.startsWith\<close>, \<open>endsWith\<close>, \<open>includes\<close> and \<open>split\<close> on a
  one-character separator.\<close>

fun startsWith :: "string \<Rightarrow> string \<Rightarrow> bool" where
  "startsWith s [] = True"
| "startsWith [] (p # ps) = False"
| "startsWith (c # cs) (p # ps) = (c = p \<and> startsWith cs ps)"

definition endsWith :: "string \<Rightarrow> string \<Rightarrow> bool" where
  "endsWith s p = startsWith (rev s) (rev p)"

fun includesStr :: "string \<Rightarrow> string \<Rightarrow> bool" where
  "includesStr [] p = (p = [])"
| "includesStr (c # cs) p = (startsWith (c # cs) p \<or> includesStr cs p)"

fun split :: "char \<Rightarrow> string \<Rightarrow> string list" where
  "split sep [] = [[]]"
| "split sep (c # cs) =
     (if c = sep then [] # split sep cs
      else (case split sep cs of
              [] \<Rightarrow> [[c]]
            | seg # segs \<Rightarrow> (c # seg) # segs))"

text \<open>
  \<open>String.prototype.toLowerCase\<close> belongs to the JavaScript runtime, not to this
  repository, and lowers every cased letter of Unicode. The functions below that call
  it take it as the parameter \<open>toLowerCase\<close>. The samples, whose paths are ASCII, pass
  \<open>asciiLowerCase\<close>, which agrees with it on ASCII strings.
\<close>

definition asciiLowerChar :: "char \<Rightarrow> char" where
  "asciiLowerChar c =
     (case map_of (zip ''ABCDEFGHIJKLMNOPQRSTUVWXYZ'' ''abcdefghijklmnopqrstuvwxyz'') c of
        None \<Rightarrow> c
      | Some l \<Rightarrow> l)"

definition asciiLowerCase :: "string \<Rightarrow> string" where
  "asciiLowerCase s = map asciiLowerChar s"

text \<open>
  A JavaScript \<open>Map\<close> iterates in insertion order: \<open>set\<close> on a key that is present
  replaces the value where the entry stands, \<open>set\<close> on a new key appends an entry,
  \<open>delete\<close> drops the entry. It is modelled as an association list.
\<close>

type_synonym ('k, 'v) jsmap = "('k \<times> 'v) list"

definition map_get :: "('k, 'v) jsmap \<Rightarrow> 'k \<Rightarrow> 'v option" where
  "map_get m k = map_of m k"

definition map_has :: "('k, 'v) jsmap \<Rightarrow> 'k \<Rightarrow> bool" where
  "map_has m k = (map_of m k \<noteq> None)"

fun map_set :: "('k, 'v) jsmap \<Rightarrow> 'k \<Rightarrow> 'v \<Rightarrow> ('k, 'v) jsmap" where
  "map_set [] k v = [(k, v)]"
| "map_set ((k', v') # m) k v =
     (if k' = k then (k, v) # m else (k', v') # map_set m k v)"

definition map_delete :: "('k, 'v) jsmap \<Rightarrow> 'k \<Rightarrow> ('k, 'v) jsmap" where
  "map_delete m k = filter (\<lambda>e. fst e \<noteq> k) m"

section \<open>Parser registry (DefaultASTParserRegistry)\<close>

text \<open>
  A value that is thrown: an \<open>Error\<close> object with its message, any other value with
  the text \<open>String\<close> gives for it, or a value for which \<open>String\<close> itself throws (an
  object whose \<open>toString\<close> throws, say), with what it throws.
\<close>

datatype Thrown = ErrorObject string | OtherValue string | Unprintable Thrown

text \<open>
  An adapter is its two methods, and either of them may throw (\<open>Inl\<close>) instead of
  returning (\<open>Inr\<close>). \<open>parse\<close> returns a promise; awaiting it gives the outcome or
  throws the rejection.
\<close>

record ASTParser =
  canParse :: "string \<Rightarrow> string \<Rightarrow> Thrown + bool"
  parse :: "string \<Rightarrow> string \<Rightarrow> Thrown + ParseResult"

text \<open>\<open>registerParser\<close>: \<open>this.parsers.push(parser)\<close>.\<close>

definition registerParser :: "ASTParser list \<Rightarrow> ASTParser \<Rightarrow> ASTParser list" where
  "registerParser parsers parser = parsers @ [parser]"

text \<open>\<open>getParser\<close> has no \<open>try\<close>: what a capability predicate throws leaves the
  loop and the method.\<close>

fun getParser :: "ASTParser list \<Rightarrow> string \<Rightarrow> string \<Rightarrow> Thrown + ASTParser option" where
  "getParser [] filePath extension = Inr None"
| "getParser (parser # parsers) filePath extension =
     (case canParse parser filePath extension of
        Inl error \<Rightarrow> Inl error
      | Inr accepts \<Rightarrow>
          if accepts then Inr (Some parser)
          else getParser parsers filePath extension)"

text \<open>\<open>filePath.split('.').pop()?.toLowerCase() || ''\<close>: \<open>split\<close> never returns an
  empty array, so \<open>pop\<close> gives its last element; the empty string is the only falsy
  string.\<close>

definition extensionOf :: "(string \<Rightarrow> string) \<Rightarrow> string \<Rightarrow> string" where
  "extensionOf toLowerCase filePath =
     (let e = toLowerCase (last (split (CHR ''.'') filePath))
      in if e = [] then [] else e)"

text \<open>\<open>error instanceof Error ? error.message : String(error)\<close>, inside the \<open>catch\<close>
  block: when \<open>String\<close> throws, nothing catches it.\<close>

fun errorText :: "Thrown \<Rightarrow> Thrown + string" where
  "errorText (ErrorObject message) = Inr message"
| "errorText (OtherValue text) = Inr text"
| "errorText (Unprintable thrown) = Inl thrown"

text \<open>\<open>parseFile\<close>. The extension is derived and the adapter selected before the
  \<open>try\<close> block, which holds the call of \<open>parse\<close> only. \<open>Inl\<close> is a rejected promise:
  a fault that reaches the caller.\<close>

definition parseFile ::
  "(string \<Rightarrow> string) \<Rightarrow> ASTParser list \<Rightarrow> string \<Rightarrow> string \<Rightarrow> Thrown + ParseResult" where
  "parseFile toLowerCase parsers content filePath =
     (let extension = extensionOf toLowerCase filePath
      in case getParser parsers filePath extension of
           Inl error \<Rightarrow> Inl error
         | Inr None \<Rightarrow>
             Inr \<lparr>p_success = False, p_ast = None, p_symbols = None, p_dependencies = None,
                  p_error = Some (''No parser available for file: '' @ filePath @
                                  '' (extension: '' @ extension @ '')'')\<rparr>
         | Inr (Some parser) \<Rightarrow>
             (case parse parser content filePath of
                Inr result \<Rightarrow> Inr result
              | Inl error \<Rightarrow>
                  (case errorText error of
                     Inl thrown \<Rightarrow> Inl thrown
                   | Inr text \<Rightarrow>
                       Inr \<lparr>p_success = False, p_ast = None, p_symbols = None,
                            p_dependencies = None,
                            p_error = Some (''Parse error for '' @ filePath @ '': '' @ text)\<rparr>)))"

section \<open>Graph store (ASTGraphBuilder)\<close>

text \<open>
  \<open>graph.symbols\<close> and the \<open>symbols\<close> array of every stored \<open>FileAST\<close> hold references
  to the same \<open>Symbol\<close> objects, and \<open>findSymbolReferences\<close> assigns to the
  \<open>references\<close> field of such an object. The objects therefore live in an explicit
  store, \<open>heap\<close>, a list indexed by address; the symbol map and the stored file
  records hold addresses. Syntax nodes and dependencies are never assigned to and are
  kept as values.
\<close>

type_synonym addr = nat

record CodeGraph =
  heap :: "Symbol list"
  nodes :: "(string, ASTNode) jsmap"
  symbols :: "(string, addr) jsmap"
  dependencies :: "Dependency list"
  files :: "(string, addr FileAST) jsmap"

text \<open>The constructor.\<close>

definition emptyGraph :: CodeGraph where
  "emptyGraph = \<lparr>heap = [], nodes = [], symbols = [], dependencies = [], files = []\<rparr>"

fun addNodeToGraph :: "ASTNode \<Rightarrow> (string, ASTNode) jsmap \<Rightarrow> (string, ASTNode) jsmap" where
  "addNodeToGraph (ASTNode i t n l cs md) m =
     fold addNodeToGraph cs (map_set m i (ASTNode i t n l cs md))"

fun removeNodeFromGraph :: "ASTNode \<Rightarrow> (string, ASTNode) jsmap \<Rightarrow> (string, ASTNode) jsmap" where
  "removeNodeFromGraph (ASTNode i t n l cs md) m =
     fold removeNodeFromGraph cs (map_delete m i)"

text \<open>\<open>importSource.replace(/\.(js|ts|jsx|tsx)$/, '')\<close>: the pattern is anchored at the
  end of the string and its alternatives hold no dot, so it removes one of the four
  suffixes when the string ends with it.\<close>

definition stripExtension :: "string \<Rightarrow> string" where
  "stripExtension s =
     (if endsWith s ''.js'' \<or> endsWith s ''.ts'' then take (length s - 3) s
      else if endsWith s ''.jsx'' \<or> endsWith s ''.tsx'' then take (length s - 4) s
      else s)"

definition isSymbolFromFile :: "string \<Rightarrow> string \<Rightarrow> bool" where
  "isSymbolFromFile importSource targetFilePath =
     (if startsWith importSource ''./'' \<or> startsWith importSource ''../''
      then includesStr targetFilePath (stripExtension importSource)
      else False)"

text \<open>The condition of the inner \<open>if\<close> of \<open>findSymbolReferences\<close>. \<open>imports?.source\<close>
  is truthy when the import info is there and its source is not the empty string; an
  absent \<open>importName\<close> or \<open>importedAs\<close> is \<open>undefined\<close> and never \<open>===\<close> a name.\<close>

definition importsSymbol :: "Symbol \<Rightarrow> Symbol \<Rightarrow> bool" where
  "importsSymbol otherSymbol symbol =
     (s_type otherSymbol = ImportT \<and>
      (case s_imports otherSymbol of
         None \<Rightarrow> False
       | Some imp \<Rightarrow>
           i_source imp \<noteq> [] \<and>
           isSymbolFromFile (i_source imp) (s_filePath symbol) \<and>
           (i_importName imp = Some (s_name symbol) \<or>
            i_importedAs imp = Some (s_name symbol))))"

text \<open>The inner loop, over the symbols of one other file; \<open>references\<close> is the array
  being filled.\<close>

fun scanSymbols ::
  "Symbol list \<Rightarrow> Symbol \<Rightarrow> addr list \<Rightarrow> SymbolReference list \<Rightarrow> SymbolReference list" where
  "scanSymbols h symbol [] references = references"
| "scanSymbols h symbol (a # as) references =
     (let otherSymbol = h ! a
      in scanSymbols h symbol as
           (if importsSymbol otherSymbol symbol
            then references @
                 [\<lparr>r_filePath = s_filePath otherSymbol, r_location = s_location otherSymbol,
                   r_type = ImportRef\<rparr>]
            else references))"

text \<open>The outer loop, over the entries of \<open>graph.files\<close>.\<close>

fun scanFiles ::
  "Symbol list \<Rightarrow> Symbol \<Rightarrow> (string, addr FileAST) jsmap \<Rightarrow> SymbolReference list
     \<Rightarrow> SymbolReference list" where
  "scanFiles h symbol [] references = references"
| "scanFiles h symbol ((filePath, fileAST) # rest) references =
     (if filePath = s_filePath symbol then scanFiles h symbol rest references
      else scanFiles h symbol rest (scanSymbols h symbol (f_symbols fileAST) references))"

definition findSymbolReferences :: "addr \<Rightarrow> CodeGraph \<Rightarrow> CodeGraph" where
  "findSymbolReferences a g =
     (let symbol = heap g ! a;
          references =
            [\<lparr>r_filePath = s_filePath symbol, r_location = s_location symbol,
              r_type = DefinitionRef\<rparr>];
          references' = scanFiles (heap g) symbol (files g) references
      in g\<lparr>heap := (heap g)[a := symbol\<lparr>s_references := references'\<rparr>]\<rparr>)"

definition buildCrossReferences :: "CodeGraph \<Rightarrow> CodeGraph" where
  "buildCrossReferences g =
     fold (\<lambda>entry g'. fold findSymbolReferences (f_symbols (snd entry)) g') (files g) g"

text \<open>
  \<open>addFile\<close>. The symbol objects of the record come fresh from a parse (the callers
  build every \<open>FileAST\<close> from a new \<open>ParseResult\<close>), so entering the record allocates
  them at the end of the store.
\<close>

definition addFile :: "CodeGraph \<Rightarrow> Symbol FileAST \<Rightarrow> CodeGraph" where
  "addFile g fileAST =
     (let addrs = [length (heap g) ..< length (heap g) + length (f_symbols fileAST)];
          stored = \<lparr>f_filePath = f_filePath fileAST, f_ast = f_ast fileAST,
                    f_symbols = addrs, f_dependencies = f_dependencies fileAST\<rparr>;
          g0 = g\<lparr>heap := heap g @ f_symbols fileAST\<rparr>;
          g1 = g0\<lparr>files := map_set (files g0) (f_filePath fileAST) stored\<rparr>;
          g2 = g1\<lparr>nodes := addNodeToGraph (f_ast stored) (nodes g1)\<rparr>;
          g3 = g2\<lparr>symbols :=
                    fold (\<lambda>a m. map_set m (s_id (heap g2 ! a)) a) (f_symbols stored) (symbols g2)\<rparr>;
          g4 = g3\<lparr>dependencies := dependencies g3 @ f_dependencies stored\<rparr>
      in buildCrossReferences g4)"

definition removeFile :: "CodeGraph \<Rightarrow> string \<Rightarrow> CodeGraph" where
  "removeFile g filePath =
     (case map_get (files g) filePath of
        None \<Rightarrow> g
      | Some fileAST \<Rightarrow>
          (let g1 = g\<lparr>files := map_delete (files g) filePath\<rparr>;
               g2 = g1\<lparr>symbols :=
                         fold (\<lambda>a m. map_delete m (s_id (heap g1 ! a))) (f_symbols fileAST)
                           (symbols g1)\<rparr>;
               g3 = g2\<lparr>nodes := removeNodeFromGraph (f_ast fileAST) (nodes g2)\<rparr>;
               g4 = g3\<lparr>dependencies :=
                         filter (\<lambda>dep. d_from dep \<noteq> filePath) (dependencies g3)\<rparr>
           in buildCrossReferences g4))"

subsection \<open>Query surface\<close>

text \<open>\<open>Array.from(this.graph.symbols.values())\<close>: the symbol objects of the symbol map,
  read from the store.\<close>

definition symbolValues :: "CodeGraph \<Rightarrow> Symbol list" where
  "symbolValues g = map (\<lambda>entry. heap g ! snd entry) (symbols g)"

definition getSymbolsByType :: "CodeGraph \<Rightarrow> SymbolType \<Rightarrow> Symbol list" where
  "getSymbolsByType g t = filter (\<lambda>symbol. s_type symbol = t) (symbolValues g)"

definition getSymbolByName :: "CodeGraph \<Rightarrow> string \<Rightarrow> Symbol list" where
  "getSymbolByName g name = filter (\<lambda>symbol. s_name symbol = name) (symbolValues g)"

definition getFileSymbols :: "CodeGraph \<Rightarrow> string \<Rightarrow> Symbol list" where
  "getFileSymbols g filePath = filter (\<lambda>symbol. s_filePath symbol = filePath) (symbolValues g)"

text \<open>One turn of the loop of \<open>getDependencyGraph\<close>. The array under \<open>dep.from\<close> is
  there when \<open>push\<close> is reached, so the \<open>None\<close> branch is never taken.\<close>

definition depStep ::
  "Dependency \<Rightarrow> (string, string list) jsmap \<Rightarrow> (string, string list) jsmap" where
  "depStep dep depGraph =
     (let depGraph1 = (if \<not> map_has depGraph (d_from dep)
                       then map_set depGraph (d_from dep) [] else depGraph)
      in case map_get depGraph1 (d_from dep) of
           None \<Rightarrow> depGraph1
         | Some targets \<Rightarrow> map_set depGraph1 (d_from dep) (targets @ [d_to dep]))"

definition getDependencyGraph :: "CodeGraph \<Rightarrow> (string, string list) jsmap" where
  "getDependencyGraph g = fold depStep (dependencies g) []"

definition findSymbolReferencesAcrossProject :: "CodeGraph \<Rightarrow> string \<Rightarrow> SymbolReference list" where
  "findSymbolReferencesAcrossProject g symbolName =
     concat (map s_references (getSymbolByName g symbolName))"

section \<open>Reachable graph states and what the specification expects\<close>

text \<open>
  A record as the parser adapter produces it: every symbol names the record's file as
  its owning file, and every dependency edge starts at the record's file.
\<close>

definition wf_file :: "Symbol FileAST \<Rightarrow> bool" where
  "wf_file fileAST =
     (list_all (\<lambda>symbol. s_filePath symbol = f_filePath fileAST) (f_symbols fileAST) \<and>
      list_all (\<lambda>dep. d_from dep = f_filePath fileAST) (f_dependencies fileAST))"

text \<open>The graph states a builder object can be in: it starts empty and changes only
  through \<open>addFile\<close> and \<open>removeFile\<close>.\<close>

inductive reachable :: "CodeGraph \<Rightarrow> bool" where
  reach_empty: "reachable emptyGraph"
| reach_add: "reachable g \<Longrightarrow> wf_file fileAST \<Longrightarrow> reachable (addFile g fileAST)"
| reach_remove: "reachable g \<Longrightarrow> reachable (removeFile g filePath)"

text \<open>The same, with the precondition of \<open>addFile\<close> honoured at every call: the caller
  has removed any prior record for the path.\<close>

inductive reachable_pre :: "CodeGraph \<Rightarrow> bool" where
  pre_empty: "reachable_pre emptyGraph"
| pre_add: "reachable_pre g \<Longrightarrow> wf_file fileAST \<Longrightarrow>
            map_get (files g) (f_filePath fileAST) = None \<Longrightarrow>
            reachable_pre (addFile g fileAST)"
| pre_remove: "reachable_pre g \<Longrightarrow> reachable_pre (removeFile g filePath)"

text \<open>The symbol objects of a stored record, read from the store, and every node of a
  syntax tree.\<close>

definition fileSymbols :: "CodeGraph \<Rightarrow> addr FileAST \<Rightarrow> Symbol list" where
  "fileSymbols g fileAST = map (\<lambda>a. heap g ! a) (f_symbols fileAST)"

fun subnodes :: "ASTNode \<Rightarrow> ASTNode list" where
  "subnodes (ASTNode i t n l cs md) = ASTNode i t n l cs md # concat (map subnodes cs)"

text \<open>
  The reference list the specification prescribes for a symbol \<open>S\<close> (section 4.4),
  written from its words and with the library's \<open>prefix\<close>, \<open>suffix\<close> and \<open>sublist\<close>
  (a contiguous part of a list), not with the string functions of the code: the
  definition reference of \<open>S\<close>, then one import reference for every symbol \<open>I\<close> of a
  different file whose kind is import, whose source starts with \<open>./\<close> or \<open>../\<close> and,
  with a final \<open>.js\<close>, \<open>.ts\<close>, \<open>.jsx\<close> or \<open>.tsx\<close> taken off, is a substring of the
  owning file path of \<open>S\<close>, and whose imported name or local alias is the name of
  \<open>S\<close>.
\<close>

definition definitionReference :: "Symbol \<Rightarrow> SymbolReference" where
  "definitionReference S =
     \<lparr>r_filePath = s_filePath S, r_location = s_location S, r_type = DefinitionRef\<rparr>"

definition importReference :: "Symbol \<Rightarrow> SymbolReference" where
  "importReference I =
     \<lparr>r_filePath = s_filePath I, r_location = s_location I, r_type = ImportRef\<rparr>"

definition relativeSpecifier :: "string \<Rightarrow> bool" where
  "relativeSpecifier source = (prefix ''./'' source \<or> prefix ''../'' source)"

definition withoutSourceExtension :: "string \<Rightarrow> string" where
  "withoutSourceExtension source =
     (case find (\<lambda>ext. suffix ext source) [''.js'', ''.ts'', ''.jsx'', ''.tsx''] of
        None \<Rightarrow> source
      | Some ext \<Rightarrow> take (length source - length ext) source)"

definition specImports :: "Symbol \<Rightarrow> Symbol \<Rightarrow> bool" where
  "specImports I S =
     (s_type I = ImportT \<and>
      (case s_imports I of
         None \<Rightarrow> False
       | Some imp \<Rightarrow>
           relativeSpecifier (i_source imp) \<and>
           sublist (withoutSourceExtension (i_source imp)) (s_filePath S) \<and>
           (i_importName imp = Some (s_name S) \<or> i_importedAs imp = Some (s_name S))))"

definition specReferences :: "CodeGraph \<Rightarrow> Symbol \<Rightarrow> SymbolReference list" where
  "specReferences g S =
     definitionReference S #
     concat (map (\<lambda>entry.
                    if fst entry \<noteq> s_filePath S
                    then map importReference
                           (filter (\<lambda>I. specImports I S) (fileSymbols g (snd entry)))
                    else [])
                 (files g))"

text \<open>A symbol object without its derived state, and a store of such objects.\<close>

definition declared :: "Symbol \<Rightarrow> Symbol" where
  "declared symbol = symbol\<lparr>s_references := []\<rparr>"

definition declaredHeap :: "Symbol list \<Rightarrow> Symbol list" where
  "declaredHeap h = map declared h"

text \<open>The addresses held by the stored file records, in iteration order.\<close>

definition fileAddrs :: "(string, addr FileAST) jsmap \<Rightarrow> addr list" where
  "fileAddrs fs = concat (map (\<lambda>entry. f_symbols (snd entry)) fs)"

text \<open>
  Facts about the store that every reachable state satisfies: a stored record sits
  under its own path, its edges start there and its symbol objects exist and name that
  path; an entry of the
  symbol map points at an existing object with that id; no object belongs to two
  records; the paths of the file map are pairwise different.
\<close>

definition validFiles :: "CodeGraph \<Rightarrow> bool" where
  "validFiles g =
     (\<forall>entry \<in> set (files g).
        f_filePath (snd entry) = fst entry \<and>
        (\<forall>dep \<in> set (f_dependencies (snd entry)). d_from dep = fst entry) \<and>
        (\<forall>a \<in> set (f_symbols (snd entry)).
           a < length (heap g) \<and> s_filePath (heap g ! a) = fst entry))"

definition validSymbols :: "CodeGraph \<Rightarrow> bool" where
  "validSymbols g =
     (\<forall>entry \<in> set (symbols g).
        snd entry < length (heap g) \<and> s_id (heap g ! snd entry) = fst entry)"

definition graph_inv :: "CodeGraph \<Rightarrow> bool" where
  "graph_inv g =
     (validFiles g \<and> validSymbols g \<and> distinct (map fst (files g)) \<and>
      distinct (fileAddrs (files g)))"

text \<open>The state of \<open>addFile\<close> and of \<open>removeFile\<close> just before the cross-references are
  rebuilt.\<close>

definition storedRecord :: "CodeGraph \<Rightarrow> Symbol FileAST \<Rightarrow> addr FileAST" where
  "storedRecord g fileAST =
     \<lparr>f_filePath = f_filePath fileAST, f_ast = f_ast fileAST,
      f_symbols = [length (heap g) ..< length (heap g) + length (f_symbols fileAST)],
      f_dependencies = f_dependencies fileAST\<rparr>"

definition entered :: "CodeGraph \<Rightarrow> Symbol FileAST \<Rightarrow> CodeGraph" where
  "entered g fileAST =
     \<lparr>heap = heap g @ f_symbols fileAST,
      nodes = addNodeToGraph (f_ast fileAST) (nodes g),
      symbols = fold (\<lambda>a m. map_set m (s_id ((heap g @ f_symbols fileAST) ! a)) a)
                  (f_symbols (storedRecord g fileAST)) (symbols g),
      dependencies = dependencies g @ f_dependencies fileAST,
      files = map_set (files g) (f_filePath fileAST) (storedRecord g fileAST)\<rparr>"

definition dropped :: "CodeGraph \<Rightarrow> string \<Rightarrow> addr FileAST \<Rightarrow> CodeGraph" where
  "dropped g filePath fileAST =
     \<lparr>heap = heap g,
      nodes = removeNodeFromGraph (f_ast fileAST) (nodes g),
      symbols = fold (\<lambda>a m. map_delete m (s_id (heap g ! a))) (f_symbols fileAST) (symbols g),
      dependencies = filter (\<lambda>dep. d_from dep \<noteq> filePath) (dependencies g),
      files = map_delete (files g) filePath\<rparr>"

section \<open>Sample inputs\<close>

text \<open>Records shaped like the parser's output for one-line files: \<open>a.ts\<close> declares the
  function \<open>add\<close>, \<open>b.ts\<close> and \<open>c.ts\<close> import it. The root node is the only syntax
  node the parser returns.\<close>

definition sample_location :: Location where
  "sample_location =
     \<lparr>loc_start = \<lparr>line = 1, column = 0\<rparr>, loc_end = \<lparr>line = 1, column = 40\<rparr>\<rparr>"

definition sample_node :: "string \<Rightarrow> ASTNode" where
  "sample_node filePath =
     ASTNode (filePath @ '':0'') ''File'' (Some ''Program'')
       \<lparr>nl_filePath = filePath, nl_start = \<lparr>line = 1, column = 0\<rparr>,
        nl_end = \<lparr>line = 1, column = 40\<rparr>\<rparr> [] []"

definition sample_function :: "string \<Rightarrow> string \<Rightarrow> Symbol" where
  "sample_function filePath name =
     \<lparr>s_id = filePath @ '':'' @ name @ '':function:1'', s_name = name, s_type = FunctionT,
      s_filePath = filePath, s_location = sample_location, s_references = [],
      s_exports = None, s_imports = None, s_metadata = []\<rparr>"

definition sample_import :: "string \<Rightarrow> string \<Rightarrow> string \<Rightarrow> Symbol" where
  "sample_import filePath name source =
     \<lparr>s_id = filePath @ '':'' @ name @ '':import:1'', s_name = name, s_type = ImportT,
      s_filePath = filePath, s_location = sample_location, s_references = [],
      s_exports = None,
      s_imports = Some \<lparr>i_source = source, i_isDefault = False, i_importName = Some name,
                        i_importedAs = Some name\<rparr>,
      s_metadata = []\<rparr>"

definition sample_declaring :: "string \<Rightarrow> string \<Rightarrow> Symbol FileAST" where
  "sample_declaring filePath name =
     \<lparr>f_filePath = filePath, f_ast = sample_node filePath,
      f_symbols = [sample_function filePath name], f_dependencies = []\<rparr>"

definition sample_importing :: "string \<Rightarrow> string \<Rightarrow> string \<Rightarrow> Symbol FileAST" where
  "sample_importing filePath name source =
     \<lparr>f_filePath = filePath, f_ast = sample_node filePath,
      f_symbols = [sample_import filePath name source],
      f_dependencies = [\<lparr>d_from = filePath, d_to = source, d_type = DepImport,
                         d_specifiers = [name]\<rparr>]\<rparr>"

text \<open>The scenario of the specification: \<open>a.ts\<close> holds
  \<open>export function add(x, y) { return x + y }\<close> and \<open>b.ts\<close> holds
  \<open>import { add } from './a'\<close>.\<close>

definition sample_a :: "Symbol FileAST" where
  "sample_a = sample_declaring ''a.ts'' ''add''"

definition sample_b :: "Symbol FileAST" where
  "sample_b = sample_importing ''b.ts'' ''add'' ''./a''"

text \<open>The same three files under paths that start with \<open>./\<close>.\<close>

definition sample_dot_a :: "Symbol FileAST" where
  "sample_dot_a = sample_declaring ''./a.ts'' ''add''"

definition sample_dot_b :: "Symbol FileAST" where
  "sample_dot_b = sample_importing ''./b.ts'' ''add'' ''./a''"

definition sample_dot_c :: "Symbol FileAST" where
  "sample_dot_c = sample_importing ''./c.ts'' ''add'' ''./a.ts''"

text \<open>A later version of \<open>./a.ts\<close> that declares \<open>sub\<close> instead of \<open>add\<close>.\<close>

definition sample_dot_a2 :: "Symbol FileAST" where
  "sample_dot_a2 = sample_declaring ''./a.ts'' ''sub''"

text \<open>Four files around a module under \<open>src/./lib\<close>: the declaring file, an importer
  whose source \<open>./lib/a.jsx\<close> matches the declaring path only once \<open>.jsx\<close> is taken
  off, and then in the middle of the path; an importer whose source ends in \<open>.json\<close>,
  which is not taken off; an importer whose source \<open>lib/a\<close> is not relative.\<close>

definition sample_lib_a :: "Symbol FileAST" where
  "sample_lib_a = sample_declaring ''src/./lib/a.ts'' ''add''"

definition sample_lib_b :: "Symbol FileAST" where
  "sample_lib_b = sample_importing ''src/b.ts'' ''add'' ''./lib/a.jsx''"

definition sample_lib_c :: "Symbol FileAST" where
  "sample_lib_c = sample_importing ''src/c.ts'' ''add'' ''./lib/a.json''"

definition sample_lib_d :: "Symbol FileAST" where
  "sample_lib_d = sample_importing ''src/d.ts'' ''add'' ''lib/a''"

text \<open>An adapter with the capability predicate of the JavaScript/TypeScript parser;
  its \<open>parse\<close> throws an \<open>Error\<close> on the content \<open>!\<close>, throws a value that \<open>String\<close>
  cannot convert on the content \<open>?\<close>, and reports an empty module otherwise.\<close>

definition sample_parser :: ASTParser where
  "sample_parser =
     \<lparr>canParse = (\<lambda>filePath extension.
                    Inr (extension \<in> set [''js'', ''jsx'', ''ts'', ''tsx'', ''mjs'', ''cjs''])),
      parse = (\<lambda>content filePath.
                 if content = ''!'' then Inl (ErrorObject ''Unexpected token (1:0)'')
                 else if content = ''?''
                   then Inl (Unprintable (ErrorObject ''Cannot convert object to primitive value''))
                 else Inr \<lparr>p_success = True, p_ast = Some (sample_node filePath),
                           p_symbols = Some [], p_dependencies = Some [],
                           p_error = None\<rparr>)\<rparr>"

text \<open>An adapter whose capability predicate throws when the file has no
  extension.\<close>

definition sample_strict_parser :: ASTParser where
  "sample_strict_parser =
     \<lparr>canParse = (\<lambda>filePath extension.
                    if extension = [] then Inl (ErrorObject ''File has no extension'')
                    else Inr (extension = ''vue'')),
      parse = (\<lambda>content filePath.
                 Inr \<lparr>p_success = False, p_ast = None, p_symbols = None,
                      p_dependencies = None, p_error = Some ''not implemented''\<rparr>)\<rparr>"

text \<open>Graph states built from the samples.\<close>

definition sample_graph2 :: CodeGraph where
  "sample_graph2 = addFile (addFile emptyGraph sample_dot_a) sample_dot_b"

definition sample_graph3 :: CodeGraph where
  "sample_graph3 = addFile sample_graph2 sample_dot_c"

definition sample_lib_graph :: CodeGraph where
  "sample_lib_graph =
     addFile (addFile (addFile (addFile emptyGraph sample_lib_a) sample_lib_b) sample_lib_c)
       sample_lib_d"

section \<open>Properties\<close>

subsection \<open>JavaScript Maps\<close>

lemma map_of_map_set: "map_of (map_set m k v) = (map_of m)(k \<mapsto> v)"
  by (induction m) auto

lemma map_get_map_set:
  "map_get (map_set m k v) k' = (if k' = k then Some v else map_get m k')"
  by (simp add: map_get_def map_of_map_set)

subsection \<open>Parser registry\<close>

lemma getParser_None:
  "(getParser parsers filePath extension = Inr None) =
     (\<forall>parser \<in> set parsers. canParse parser filePath extension = Inr False)"
  by (induction parsers) (auto split: sum.splits if_splits)

lemma getParser_Some:
  "getParser parsers filePath extension = Inr (Some parser) \<Longrightarrow>
     parser \<in> set parsers \<and> canParse parser filePath extension = Inr True"
  by (induction parsers) (auto split: sum.splits if_splits)

lemma getParser_Inl:
  "getParser parsers filePath extension = Inl thrown \<Longrightarrow>
     \<exists>parser \<in> set parsers. canParse parser filePath extension = Inl thrown"
  by (induction parsers) (auto split: sum.splits if_splits)

lemma getParser_returns:
  "\<forall>parser \<in> set parsers. \<exists>accepts. canParse parser filePath extension = Inr accepts \<Longrightarrow>
     \<exists>selected. getParser parsers filePath extension = Inr selected"
  by (induction parsers) (auto split: sum.splits if_splits)

text \<open>
  C5, as the claim states it, fails: the capability predicates are called before the
  \<open>try\<close> block, so when one of them throws, \<open>parseFile\<close> hands the fault to its caller.
  Here the adapter's predicate throws on the empty extension of \<open>Makefile.\<close>.
\<close>

theorem parseFile_fault_containment_counterexample:
  "canParse sample_strict_parser ''Makefile.'' (extensionOf asciiLowerCase ''Makefile.'') =
     Inl (ErrorObject ''File has no extension'') \<and>
   parseFile asciiLowerCase [sample_strict_parser] ''all:'' ''Makefile.'' =
     Inl (ErrorObject ''File has no extension'')"
  by (simp add: parseFile_def extensionOf_def asciiLowerCase_def sample_strict_parser_def)

text \<open>
  C5 (amended). When every registered capability predicate returns false for the
  derived extension, \<open>parseFile\<close> returns the failure outcome "No parser available";
  when the selected adapter's \<open>parse\<close> returns an outcome, that outcome is returned
  unchanged; when it throws an \<open>Error\<close>, or a value that \<open>String\<close> converts, the outcome
  is a failure whose message carries the file path and the error text. A fault reaches
  the caller in two cases only: a capability predicate throws while the adapter is
  selected, or \<open>String\<close> throws inside the \<open>catch\<close> block. So when the predicates
  return and the thrown values convert, \<open>parseFile\<close> returns an outcome.
\<close>

theorem parseFile_fault_containment:
  "((\<forall>parser \<in> set parsers.
       canParse parser filePath (extensionOf toLowerCase filePath) = Inr False) \<longrightarrow>
      parseFile toLowerCase parsers content filePath =
        Inr \<lparr>p_success = False, p_ast = None, p_symbols = None, p_dependencies = None,
             p_error = Some (''No parser available for file: '' @ filePath @
                             '' (extension: '' @ extensionOf toLowerCase filePath @ '')'')\<rparr>) \<and>
   (\<forall>parser result.
      getParser parsers filePath (extensionOf toLowerCase filePath) = Inr (Some parser) \<and>
      parse parser content filePath = Inr result \<longrightarrow>
      parseFile toLowerCase parsers content filePath = Inr result) \<and>
   (\<forall>parser error text.
      getParser parsers filePath (extensionOf toLowerCase filePath) = Inr (Some parser) \<and>
      parse parser content filePath = Inl error \<and> errorText error = Inr text \<longrightarrow>
      parseFile toLowerCase parsers content filePath =
        Inr \<lparr>p_success = False, p_ast = None, p_symbols = None, p_dependencies = None,
             p_error = Some (''Parse error for '' @ filePath @ '': '' @ text)\<rparr>) \<and>
   (\<forall>thrown.
      parseFile toLowerCase parsers content filePath = Inl thrown \<longleftrightarrow>
        getParser parsers filePath (extensionOf toLowerCase filePath) = Inl thrown \<or>
        (\<exists>parser error.
           getParser parsers filePath (extensionOf toLowerCase filePath) = Inr (Some parser) \<and>
           parse parser content filePath = Inl error \<and> errorText error = Inl thrown)) \<and>
   (\<forall>thrown.
      getParser parsers filePath (extensionOf toLowerCase filePath) = Inl thrown \<longrightarrow>
      (\<exists>parser \<in> set parsers.
         canParse parser filePath (extensionOf toLowerCase filePath) = Inl thrown)) \<and>
   ((\<forall>parser \<in> set parsers.
       \<exists>accepts. canParse parser filePath (extensionOf toLowerCase filePath) = Inr accepts) \<and>
    (\<forall>parser \<in> set parsers. \<forall>error.
       parse parser content filePath = Inl error \<longrightarrow> (\<exists>text. errorText error = Inr text)) \<longrightarrow>
    (\<exists>result. parseFile toLowerCase parsers content filePath = Inr result))"
proof -
  let ?ext = "extensionOf toLowerCase filePath"
  have c1: "(\<forall>parser \<in> set parsers. canParse parser filePath ?ext = Inr False) \<longrightarrow>
      parseFile toLowerCase parsers content filePath =
        Inr \<lparr>p_success = False, p_ast = None, p_symbols = None, p_dependencies = None,
             p_error = Some (''No parser available for file: '' @ filePath @
                             '' (extension: '' @ ?ext @ '')'')\<rparr>"
    by (simp add: parseFile_def Let_def getParser_None[symmetric])
  have c2: "\<forall>parser result.
      getParser parsers filePath ?ext = Inr (Some parser) \<and>
      parse parser content filePath = Inr result \<longrightarrow>
      parseFile toLowerCase parsers content filePath = Inr result"
    by (simp add: parseFile_def Let_def)
  have c3: "\<forall>parser error text.
      getParser parsers filePath ?ext = Inr (Some parser) \<and>
      parse parser content filePath = Inl error \<and> errorText error = Inr text \<longrightarrow>
      parseFile toLowerCase parsers content filePath =
        Inr \<lparr>p_success = False, p_ast = None, p_symbols = None, p_dependencies = None,
             p_error = Some (''Parse error for '' @ filePath @ '': '' @ text)\<rparr>"
    by (simp add: parseFile_def Let_def)
  have c4: "\<forall>thrown.
      parseFile toLowerCase parsers content filePath = Inl thrown \<longleftrightarrow>
        getParser parsers filePath ?ext = Inl thrown \<or>
        (\<exists>parser error.
           getParser parsers filePath ?ext = Inr (Some parser) \<and>
           parse parser content filePath = Inl error \<and> errorText error = Inl thrown)"
    by (auto simp: parseFile_def Let_def split: sum.splits option.splits)
  have c5: "\<forall>thrown. getParser parsers filePath ?ext = Inl thrown \<longrightarrow>
      (\<exists>parser \<in> set parsers. canParse parser filePath ?ext = Inl thrown)"
    using getParser_Inl by blast
  have c6: "(\<forall>parser \<in> set parsers. \<exists>accepts. canParse parser filePath ?ext = Inr accepts) \<and>
    (\<forall>parser \<in> set parsers. \<forall>error.
       parse parser content filePath = Inl error \<longrightarrow> (\<exists>text. errorText error = Inr text)) \<longrightarrow>
    (\<exists>result. parseFile toLowerCase parsers content filePath = Inr result)"
  proof (intro impI, elim conjE)
    assume p: "\<forall>parser \<in> set parsers. \<exists>accepts. canParse parser filePath ?ext = Inr accepts"
      and q: "\<forall>parser \<in> set parsers. \<forall>error.
                parse parser content filePath = Inl error \<longrightarrow> (\<exists>text. errorText error = Inr text)"
    from getParser_returns[OF p] obtain selected
      where sel: "getParser parsers filePath ?ext = Inr selected" by blast
    show "\<exists>result. parseFile toLowerCase parsers content filePath = Inr result"
    proof (cases selected)
      case None
      then show ?thesis using sel by (simp add: parseFile_def Let_def)
    next
      case (Some parser)
      then have mem: "parser \<in> set parsers" using sel getParser_Some by blast
      show ?thesis
      proof (cases "parse parser content filePath")
        case (Inr result)
        then show ?thesis using sel Some by (simp add: parseFile_def Let_def)
      next
        case (Inl error)
        then obtain message where "errorText error = Inr message" using q mem by blast
        then show ?thesis using sel Some Inl by (simp add: parseFile_def Let_def)
      qed
    qed
  qed
  from c1 c2 c3 c4 c5 c6 show ?thesis by blast
qed

theorem parseFile_fault_containment_witness:
  "canParse sample_parser ''README.md'' (extensionOf asciiLowerCase ''README.md'') = Inr False \<and>
   parseFile asciiLowerCase [sample_parser] ''# readme'' ''README.md'' =
     Inr \<lparr>p_success = False, p_ast = None, p_symbols = None, p_dependencies = None,
          p_error = Some ''No parser available for file: README.md (extension: md)''\<rparr> \<and>
   getParser [sample_parser] ''src/App.TSX'' (extensionOf asciiLowerCase ''src/App.TSX'') =
     Inr (Some sample_parser) \<and>
   parse sample_parser ''let x'' ''src/App.TSX'' =
     Inr \<lparr>p_success = True, p_ast = Some (sample_node ''src/App.TSX''), p_symbols = Some [],
          p_dependencies = Some [], p_error = None\<rparr> \<and>
   parseFile asciiLowerCase [sample_parser] ''let x'' ''src/App.TSX'' =
     Inr \<lparr>p_success = True, p_ast = Some (sample_node ''src/App.TSX''), p_symbols = Some [],
          p_dependencies = Some [], p_error = None\<rparr> \<and>
   parse sample_parser ''!'' ''src/App.TSX'' = Inl (ErrorObject ''Unexpected token (1:0)'') \<and>
   errorText (ErrorObject ''Unexpected token (1:0)'') = Inr ''Unexpected token (1:0)'' \<and>
   parseFile asciiLowerCase [sample_parser] ''!'' ''src/App.TSX'' =
     Inr \<lparr>p_success = False, p_ast = None, p_symbols = None, p_dependencies = None,
          p_error = Some ''Parse error for src/App.TSX: Unexpected token (1:0)''\<rparr> \<and>
   parse sample_parser ''?'' ''src/App.TSX'' =
     Inl (Unprintable (ErrorObject ''Cannot convert object to primitive value'')) \<and>
   parseFile asciiLowerCase [sample_parser] ''?'' ''src/App.TSX'' =
     Inl (ErrorObject ''Cannot convert object to primitive value'')"
proof -
  have ext_md: "extensionOf asciiLowerCase ''README.md'' = ''md''"
    by (simp add: extensionOf_def asciiLowerCase_def asciiLowerChar_def)
  have ext_tsx: "extensionOf asciiLowerCase ''src/App.TSX'' = ''tsx''"
    by (simp add: extensionOf_def asciiLowerCase_def asciiLowerChar_def)
  have none: "\<forall>parser \<in> set [sample_parser].
                canParse parser ''README.md'' (extensionOf asciiLowerCase ''README.md'') = Inr False"
    by (simp add: ext_md sample_parser_def)
  have some: "getParser [sample_parser] ''src/App.TSX''
                (extensionOf asciiLowerCase ''src/App.TSX'') = Inr (Some sample_parser)"
    by (simp add: ext_tsx sample_parser_def)
  have ok: "parse sample_parser ''let x'' ''src/App.TSX'' =
              Inr \<lparr>p_success = True, p_ast = Some (sample_node ''src/App.TSX''),
                   p_symbols = Some [], p_dependencies = Some [], p_error = None\<rparr>"
    by (simp add: sample_parser_def)
  have thrown: "parse sample_parser ''!'' ''src/App.TSX'' =
                  Inl (ErrorObject ''Unexpected token (1:0)'')"
    by (simp add: sample_parser_def)
  have etext: "errorText (ErrorObject ''Unexpected token (1:0)'') = Inr ''Unexpected token (1:0)''"
    by simp
  have odd: "parse sample_parser ''?'' ''src/App.TSX'' =
               Inl (Unprintable (ErrorObject ''Cannot convert object to primitive value''))"
    by (simp add: sample_parser_def)
  have oddtext: "errorText (Unprintable (ErrorObject ''Cannot convert object to primitive value'')) =
                   Inl (ErrorObject ''Cannot convert object to primitive value'')"
    by simp
  note t1 = parseFile_fault_containment[of "[sample_parser]" "''README.md''" asciiLowerCase
      "''# readme''"]
  note t2 = parseFile_fault_containment[of "[sample_parser]" "''src/App.TSX''" asciiLowerCase
      "''let x''"]
  note t3 = parseFile_fault_containment[of "[sample_parser]" "''src/App.TSX''" asciiLowerCase
      "''!''"]
  note t4 = parseFile_fault_containment[of "[sample_parser]" "''src/App.TSX''" asciiLowerCase
      "''?''"]
  from t1 none
  have r1: "parseFile asciiLowerCase [sample_parser] ''# readme'' ''README.md'' =
              Inr \<lparr>p_success = False, p_ast = None, p_symbols = None, p_dependencies = None,
                   p_error = Some ''No parser available for file: README.md (extension: md)''\<rparr>"
    by (simp add: ext_md)
  from t2 some ok
  have r2: "parseFile asciiLowerCase [sample_parser] ''let x'' ''src/App.TSX'' =
              Inr \<lparr>p_success = True, p_ast = Some (sample_node ''src/App.TSX''),
                   p_symbols = Some [], p_dependencies = Some [], p_error = None\<rparr>"
    by blast
  from t3 some thrown etext
  have r3: "parseFile asciiLowerCase [sample_parser] ''!'' ''src/App.TSX'' =
              Inr \<lparr>p_success = False, p_ast = None, p_symbols = None, p_dependencies = None,
                   p_error = Some ''Parse error for src/App.TSX: Unexpected token (1:0)''\<rparr>"
    by simp
  from t4 some odd oddtext
  have r4: "parseFile asciiLowerCase [sample_parser] ''?'' ''src/App.TSX'' =
              Inl (ErrorObject ''Cannot convert object to primitive value'')"
    by blast
  have n1: "canParse sample_parser ''README.md'' (extensionOf asciiLowerCase ''README.md'') = Inr False"
    using none by simp
  from n1 some ok thrown etext odd r1 r2 r3 r4 show ?thesis by simp
qed

lemma split_nonempty: "split sep s \<noteq> []"
  by (induction s) (auto split: list.splits)

lemma split_no_sep: "sep \<notin> set s \<Longrightarrow> split sep s = [s]"
  by (induction s) auto

lemma split_single_empty: "(split sep s = [[]]) = (s = [])"
  using split_nonempty[of sep "tl s"] by (cases s) (auto split: list.splits)

lemma last_split_empty: "(last (split sep s) = []) = (s = [] \<or> last s = sep)"
proof (induction s)
  case Nil
  then show ?case by simp
next
  case (Cons c cs)
  then show ?case
    using split_nonempty[of sep cs] split_single_empty[of sep cs]
    by (cases "split sep cs") (auto split: list.splits)
qed

lemma extensionOf_eq:
  "extensionOf toLowerCase filePath = toLowerCase (last (split (CHR ''.'') filePath))"
  by (simp add: extensionOf_def Let_def)

text \<open>
  C10, as the claim states it, fails at the empty path: it holds no dot, and the
  extension derived from it is the empty string.
\<close>

theorem extensionOf_no_dot_counterexample:
  "CHR ''.'' \<notin> set '''' \<and> extensionOf asciiLowerCase '''' = asciiLowerCase '''' \<and>
   extensionOf asciiLowerCase '''' = ''''"
  by (simp add: extensionOf_def asciiLowerCase_def)

text \<open>
  C10 (amended). \<open>toLowerCase\<close> is any lowering that, like the one of JavaScript, gives
  the empty string for the empty string only. For a path that holds no dot, the
  extension \<open>parseFile\<close> derives and hands to \<open>getParser\<close>, hence to the capability
  predicates, is the whole path in lower case; it is the empty string only when the
  path itself is empty. For any path, the derived extension is empty exactly when the
  last segment is empty, that is when the path is empty or ends with a dot.
\<close>

theorem extensionOf_no_dot:
  assumes lower: "\<And>s. (toLowerCase s = []) = (s = [])"
  shows
  "(CHR ''.'' \<notin> set filePath \<longrightarrow>
      extensionOf toLowerCase filePath = toLowerCase filePath \<and>
      (extensionOf toLowerCase filePath = [] \<longleftrightarrow> filePath = []) \<and>
      getParser parsers filePath (extensionOf toLowerCase filePath) =
        getParser parsers filePath (toLowerCase filePath) \<and>
      parseFile toLowerCase parsers content filePath =
        (case getParser parsers filePath (toLowerCase filePath) of
           Inl thrown \<Rightarrow> Inl thrown
         | Inr None \<Rightarrow>
             Inr \<lparr>p_success = False, p_ast = None, p_symbols = None, p_dependencies = None,
                  p_error = Some (''No parser available for file: '' @ filePath @
                                  '' (extension: '' @ toLowerCase filePath @ '')'')\<rparr>
         | Inr (Some parser) \<Rightarrow> parseFile toLowerCase [parser] content filePath)) \<and>
   (extensionOf toLowerCase filePath = [] \<longleftrightarrow> last (split (CHR ''.'') filePath) = []) \<and>
   (extensionOf toLowerCase filePath = [] \<longleftrightarrow> filePath = [] \<or> last filePath = CHR ''.'')"
proof -
  have e: "(extensionOf toLowerCase filePath = []) = (last (split (CHR ''.'') filePath) = [])"
    by (simp add: extensionOf_eq lower)
  have "CHR ''.'' \<notin> set filePath \<Longrightarrow> extensionOf toLowerCase filePath = toLowerCase filePath"
    by (simp add: extensionOf_eq split_no_sep)
  moreover have "CHR ''.'' \<notin> set filePath \<Longrightarrow>
      parseFile toLowerCase parsers content filePath =
        (case getParser parsers filePath (toLowerCase filePath) of
           Inl thrown \<Rightarrow> Inl thrown
         | Inr None \<Rightarrow>
             Inr \<lparr>p_success = False, p_ast = None, p_symbols = None, p_dependencies = None,
                  p_error = Some (''No parser available for file: '' @ filePath @
                                  '' (extension: '' @ toLowerCase filePath @ '')'')\<rparr>
         | Inr (Some parser) \<Rightarrow> parseFile toLowerCase [parser] content filePath)"
  proof -
    assume nd: "CHR ''.'' \<notin> set filePath"
    have x: "extensionOf toLowerCase filePath = toLowerCase filePath"
      using nd by (simp add: extensionOf_eq split_no_sep)
    show ?thesis
      using getParser_Some[of parsers filePath "toLowerCase filePath"]
      by (auto simp: parseFile_def Let_def x split: option.splits sum.splits)
  qed
  ultimately show ?thesis
    using e last_split_empty[of "CHR ''.''" filePath]
    by (auto simp: lower)
qed

theorem extensionOf_no_dot_witness:
  "CHR ''.'' \<notin> set ''Makefile'' \<and> extensionOf asciiLowerCase ''Makefile'' = ''makefile'' \<and>
   asciiLowerCase ''Makefile'' = ''makefile'' \<and>
   parseFile asciiLowerCase [sample_parser] ''all:'' ''Makefile'' =
     Inr \<lparr>p_success = False, p_ast = None, p_symbols = None, p_dependencies = None,
          p_error = Some ''No parser available for file: Makefile (extension: makefile)''\<rparr>"
proof -
  have nd: "CHR ''.'' \<notin> set ''Makefile''" by simp
  have lower: "\<And>s. (asciiLowerCase s = []) = (s = [])"
    by (simp add: asciiLowerCase_def)
  have lc: "asciiLowerCase ''Makefile'' = ''makefile''"
    by (simp add: asciiLowerCase_def asciiLowerChar_def)
  have np: "getParser [sample_parser] ''Makefile'' ''makefile'' = Inr None"
    by (simp add: sample_parser_def)
  from extensionOf_no_dot[of asciiLowerCase "''Makefile''" "[sample_parser]" "''all:''", OF lower]
    nd lc np
  show ?thesis by simp
qed

subsection \<open>Dependency adjacency\<close>

lemma map_of_depStep:
  "map_of (depStep dep m) =
     (map_of m)(d_from dep \<mapsto>
        (case map_of m (d_from dep) of None \<Rightarrow> [] | Some ts \<Rightarrow> ts) @ [d_to dep])"
  by (auto simp: depStep_def Let_def map_has_def map_get_def map_of_map_set
           split: option.splits)

lemma map_of_fold_depStep:
  "map_of (fold depStep deps m) A =
     (case map_of m A of
        None \<Rightarrow> (if filter (\<lambda>dep. d_from dep = A) deps = [] then None
                 else Some (map d_to (filter (\<lambda>dep. d_from dep = A) deps)))
      | Some ts \<Rightarrow> Some (ts @ map d_to (filter (\<lambda>dep. d_from dep = A) deps)))"
proof (induction deps arbitrary: m)
  case Nil
  then show ?case by (simp split: option.splits)
next
  case (Cons dep deps)
  show ?case
    by (simp add: Cons.IH map_of_depStep split: option.splits)
qed

text \<open>
  C7 (dependency adjacency consistency). For every file path \<open>A\<close> that is the source of
  at least one dependency edge, the map \<open>getDependencyGraph\<close> returns holds under \<open>A\<close>
  the \<open>to\<close> targets of the edges whose \<open>from\<close> is \<open>A\<close>, in the order of the flat edge
  list.
\<close>

theorem getDependencyGraph_adjacency:
  assumes "A \<in> d_from ` set (dependencies g)"
  shows "map_get (getDependencyGraph g) A =
           Some (map d_to (filter (\<lambda>dep. d_from dep = A) (dependencies g)))"
proof -
  from assms have "filter (\<lambda>dep. d_from dep = A) (dependencies g) \<noteq> []"
    by (auto simp: filter_empty_conv)
  then show ?thesis
    by (simp add: getDependencyGraph_def map_get_def map_of_fold_depStep)
qed

theorem getDependencyGraph_adjacency_witness:
  "''./b.ts'' \<in> d_from ` set (dependencies (addFile (addFile (addFile emptyGraph sample_dot_a) sample_dot_b) sample_dot_c)) \<and>
   map_get (getDependencyGraph (addFile (addFile (addFile emptyGraph sample_dot_a) sample_dot_b) sample_dot_c)) ''./b.ts'' =
     Some [''./a'']"
proof -
  have deps: "dependencies (addFile (addFile (addFile emptyGraph sample_dot_a) sample_dot_b) sample_dot_c) =
          [\<lparr>d_from = ''./b.ts'', d_to = ''./a'', d_type = DepImport, d_specifiers = [''add'']\<rparr>,
           \<lparr>d_from = ''./c.ts'', d_to = ''./a.ts'', d_type = DepImport, d_specifiers = [''add'']\<rparr>]"
    by code_simp
  have h: "''./b.ts'' \<in> d_from ` set (dependencies (addFile (addFile (addFile emptyGraph sample_dot_a) sample_dot_b) sample_dot_c))"
    by (simp add: deps)
  from getDependencyGraph_adjacency[OF h] h show ?thesis
    by (simp add: deps)
qed

subsection \<open>Removal of an absent path\<close>

text \<open>
  C6 (removal of an absent path is a no-op). When the file map holds no record under
  the path, \<open>removeFile\<close> returns the graph it was given: node map, symbol map, symbol
  objects with their reference lists, edge list and file map are all unchanged.
\<close>

theorem removeFile_absent_noop:
  "map_get (files g) filePath = None \<Longrightarrow> removeFile g filePath = g"
  by (simp add: removeFile_def)

theorem removeFile_absent_noop_witness:
  "map_get (files (addFile emptyGraph sample_a)) ''b.ts'' = None \<and>
   removeFile (addFile emptyGraph sample_a) ''b.ts'' = addFile emptyGraph sample_a"
proof -
  have h: "map_get (files (addFile emptyGraph sample_a)) ''b.ts'' = None"
    by code_simp
  from removeFile_absent_noop[OF h] h show ?thesis by simp
qed

subsection \<open>Rebuilding the cross-references\<close>

lemma addFile_entered: "addFile g fileAST = buildCrossReferences (entered g fileAST)"
  by (cases g) (simp add: addFile_def entered_def storedRecord_def Let_def)

lemma removeFile_absent: "map_get (files g) filePath = None \<Longrightarrow> removeFile g filePath = g"
  by (simp add: removeFile_def)

lemma removeFile_dropped:
  "map_get (files g) filePath = Some fileAST \<Longrightarrow>
   removeFile g filePath = buildCrossReferences (dropped g filePath fileAST)"
  by (cases g) (simp add: removeFile_def dropped_def Let_def)


lemma declared_fields [simp]:
  "s_id (declared s) = s_id s" "s_name (declared s) = s_name s"
  "s_type (declared s) = s_type s" "s_filePath (declared s) = s_filePath s"
  "s_location (declared s) = s_location s" "s_imports (declared s) = s_imports s"
  "s_exports (declared s) = s_exports s" "s_references (declared s) = []"
  by (simp_all add: declared_def)

lemma declared_eqD:
  assumes "declared s = declared t"
  shows "s_id s = s_id t" "s_name s = s_name t" "s_type s = s_type t"
    "s_filePath s = s_filePath t" "s_location s = s_location t" "s_imports s = s_imports t"
proof -
  show "s_id s = s_id t" using arg_cong[OF assms, of s_id] by simp
  show "s_name s = s_name t" using arg_cong[OF assms, of s_name] by simp
  show "s_type s = s_type t" using arg_cong[OF assms, of s_type] by simp
  show "s_filePath s = s_filePath t" using arg_cong[OF assms, of s_filePath] by simp
  show "s_location s = s_location t" using arg_cong[OF assms, of s_location] by simp
  show "s_imports s = s_imports t" using arg_cong[OF assms, of s_imports] by simp
qed

lemma declared_update [simp]: "declared (s\<lparr>s_references := r\<rparr>) = declared s"
  by (simp add: declared_def)

lemma declared_restore: "declared s = declared t \<Longrightarrow> s_references s = s_references t \<Longrightarrow> s = t"
  by (cases s, cases t) (simp add: declared_def)

lemma startsWith_prefix: "startsWith s p = prefix p s"
  by (induction s p rule: startsWith.induct) auto

lemma endsWith_suffix: "endsWith s p = suffix p s"
  by (simp add: endsWith_def startsWith_prefix suffix_to_prefix)

lemma includesStr_sublist: "includesStr t p = sublist p t"
  by (induction t) (simp_all add: startsWith_prefix sublist_Cons_right)

lemma stripExtension_spec: "stripExtension s = withoutSourceExtension s"
  unfolding stripExtension_def withoutSourceExtension_def endsWith_suffix
  by (auto simp: numeral_eq_Suc)

lemma relative_not_empty: "relativeSpecifier source \<Longrightarrow> source \<noteq> []"
  by (auto simp: relativeSpecifier_def)

lemma importsSymbol_spec: "importsSymbol I S = specImports I S"
proof (cases "s_imports I")
  case None
  then show ?thesis by (simp add: importsSymbol_def specImports_def)
next
  case (Some imp)
  have "isSymbolFromFile (i_source imp) (s_filePath S) =
        (relativeSpecifier (i_source imp) \<and>
         sublist (withoutSourceExtension (i_source imp)) (s_filePath S))"
    by (simp add: isSymbolFromFile_def relativeSpecifier_def startsWith_prefix
          includesStr_sublist stripExtension_spec)
  then show ?thesis
    using Some relative_not_empty[of "i_source imp"]
    by (auto simp: importsSymbol_def specImports_def)
qed

lemma scanSymbols_closed:
  "scanSymbols h S as refs =
     refs @ map importReference (filter (\<lambda>I. specImports I S) (map (\<lambda>a. h ! a) as))"
  by (induction as arbitrary: refs)
     (simp_all add: Let_def importsSymbol_spec importReference_def)

lemma scanFiles_closed:
  "scanFiles h S fs refs =
     refs @ concat (map (\<lambda>entry.
                    if fst entry \<noteq> s_filePath S
                    then map importReference
                           (filter (\<lambda>I. specImports I S) (map (\<lambda>a. h ! a) (f_symbols (snd entry))))
                    else []) fs)"
proof (induction fs arbitrary: refs)
  case Nil
  then show ?case by simp
next
  case (Cons e fs)
  obtain k rec where e: "e = (k, rec)" by (cases e)
  show ?case by (simp add: e Cons.IH scanSymbols_closed)
qed

lemma findSymbolReferences_heap:
  "findSymbolReferences a g =
     g\<lparr>heap := (heap g)[a := (heap g ! a)\<lparr>s_references := specReferences g (heap g ! a)\<rparr>]\<rparr>"
  by (simp add: findSymbolReferences_def Let_def scanFiles_closed specReferences_def
        definitionReference_def fileSymbols_def cong: if_cong)

lemma specImports_declared:
  "specImports (declared I) S = specImports I S" "specImports I (declared S) = specImports I S"
  by (simp_all add: specImports_def split: option.splits)

lemma importReference_declared: "importReference (declared I) = importReference I"
  by (simp add: importReference_def)

lemma definitionReference_declared: "definitionReference (declared I) = definitionReference I"
  by (simp add: definitionReference_def)

lemma importRefs_declared:
  "map importReference (filter (\<lambda>I. specImports I S) (map declared xs)) =
   map importReference (filter (\<lambda>I. specImports I S) xs)"
  by (induction xs) (simp_all add: specImports_declared importReference_declared)

lemma specImports_cong:
  "declared S' = declared S \<Longrightarrow> specImports I S' = specImports I S"
  using specImports_declared(2)[of I S'] specImports_declared(2)[of I S] by simp

lemma declaredHeap_length: "declaredHeap h' = declaredHeap h \<Longrightarrow> length h' = length h"
  unfolding declaredHeap_def by (rule map_eq_imp_length_eq)

lemma declaredHeap_nth:
  assumes "declaredHeap h' = declaredHeap h" "a < length h"
  shows "declared (h' ! a) = declared (h ! a)"
proof -
  have "length h' = length h" using assms(1) by (rule declaredHeap_length)
  then have "declaredHeap h' ! a = declared (h' ! a)" "declaredHeap h ! a = declared (h ! a)"
    using assms(2) by (simp_all add: declaredHeap_def)
  then show ?thesis using assms(1) by simp
qed

lemma declaredHeap_update: "declaredHeap (h[a := (h ! a)\<lparr>s_references := r\<rparr>]) = declaredHeap h"
proof (cases "a < length h")
  case True
  then show ?thesis
    by (simp add: declaredHeap_def map_update list_update_same_conv)
next
  case False
  then have "length h \<le> a" by simp
  then show ?thesis by (simp only: list_update_beyond)
qed

lemma map_nth_declared:
  assumes "declaredHeap h' = declaredHeap h" "\<forall>a \<in> set as. a < length h"
  shows "map declared (map (\<lambda>a. h' ! a) as) = map declared (map (\<lambda>a. h ! a) as)"
  using assms(2) by (induction as) (simp_all add: declaredHeap_nth[OF assms(1)])

lemma importRefs_heap_cong:
  assumes "declaredHeap h' = declaredHeap h" "\<forall>a \<in> set as. a < length h"
    "declared S' = declared S"
  shows "map importReference (filter (\<lambda>I. specImports I S') (map (\<lambda>a. h' ! a) as)) =
         map importReference (filter (\<lambda>I. specImports I S) (map (\<lambda>a. h ! a) as))"
proof -
  have "map importReference (filter (\<lambda>I. specImports I S') (map (\<lambda>a. h' ! a) as)) =
        map importReference (filter (\<lambda>I. specImports I S') (map declared (map (\<lambda>a. h' ! a) as)))"
    by (rule importRefs_declared[symmetric])
  also have "\<dots> = map importReference (filter (\<lambda>I. specImports I S') (map declared (map (\<lambda>a. h ! a) as)))"
    by (simp only: map_nth_declared[OF assms(1,2)])
  also have "\<dots> = map importReference (filter (\<lambda>I. specImports I S') (map (\<lambda>a. h ! a) as))"
    by (rule importRefs_declared)
  also have "\<dots> = map importReference (filter (\<lambda>I. specImports I S) (map (\<lambda>a. h ! a) as))"
    by (simp add: specImports_cong[OF assms(3)])
  finally show ?thesis .
qed

lemma specReferences_cong:
  assumes fs: "files g' = files g"
    and dh: "declaredHeap (heap g') = declaredHeap (heap g)"
    and valid: "\<forall>a \<in> set (fileAddrs (files g)). a < length (heap g)"
    and S: "declared S' = declared S"
  shows "specReferences g' S' = specReferences g S"
proof -
  have "\<And>entry. entry \<in> set (files g) \<Longrightarrow>
          map importReference (filter (\<lambda>I. specImports I S') (fileSymbols g' (snd entry))) =
          map importReference (filter (\<lambda>I. specImports I S) (fileSymbols g (snd entry)))"
    unfolding fileSymbols_def
    using valid by (intro importRefs_heap_cong[OF dh _ S]) (auto simp: fileAddrs_def)
  moreover have "s_filePath S' = s_filePath S" "definitionReference S' = definitionReference S"
    using declared_eqD[OF S] by (simp_all add: definitionReference_def)
  ultimately have m: "map (\<lambda>entry.
                    if fst entry \<noteq> s_filePath S'
                    then map importReference
                           (filter (\<lambda>I. specImports I S') (fileSymbols g' (snd entry)))
                    else []) (files g) =
              map (\<lambda>entry.
                    if fst entry \<noteq> s_filePath S
                    then map importReference
                           (filter (\<lambda>I. specImports I S) (fileSymbols g (snd entry)))
                    else []) (files g)"
    by (intro map_cong) simp_all
  have d: "definitionReference S' = definitionReference S"
    using declared_eqD[OF S] by (simp add: definitionReference_def)
  show ?thesis
    by (simp only: specReferences_def fs d m)
qed

lemma fold_findSymbolReferences:
  assumes valid: "\<forall>a \<in> set (fileAddrs (files g)). a < length (heap g)"
  shows "files (fold findSymbolReferences as g) = files g \<and>
         symbols (fold findSymbolReferences as g) = symbols g \<and>
         nodes (fold findSymbolReferences as g) = nodes g \<and>
         dependencies (fold findSymbolReferences as g) = dependencies g \<and>
         declaredHeap (heap (fold findSymbolReferences as g)) = declaredHeap (heap g) \<and>
         (\<forall>b < length (heap g).
            s_references (heap (fold findSymbolReferences as g) ! b) =
              (if b \<in> set as then specReferences g (heap g ! b)
               else s_references (heap g ! b)))"
  using valid
proof (induction as arbitrary: g)
  case Nil
  then show ?case by simp
next
  case (Cons a as)
  let ?g1 = "findSymbolReferences a g"
  have g1: "files ?g1 = files g" "symbols ?g1 = symbols g" "nodes ?g1 = nodes g"
    "dependencies ?g1 = dependencies g" "length (heap ?g1) = length (heap g)"
    by (simp_all add: findSymbolReferences_heap)
  have dh: "declaredHeap (heap ?g1) = declaredHeap (heap g)"
    by (simp add: findSymbolReferences_heap declaredHeap_update)
  have valid1: "\<forall>a \<in> set (fileAddrs (files ?g1)). a < length (heap ?g1)"
    using Cons.prems by (simp add: g1)
  note IH = Cons.IH[OF valid1]
  have refs1: "\<And>b. b < length (heap g) \<Longrightarrow>
      s_references (heap ?g1 ! b) =
        (if b = a then specReferences g (heap g ! b) else s_references (heap g ! b))"
    by (simp add: findSymbolReferences_heap nth_list_update)
  have spec1: "\<And>b. b < length (heap g) \<Longrightarrow>
      specReferences ?g1 (heap ?g1 ! b) = specReferences g (heap g ! b)"
    by (intro specReferences_cong g1(1) dh Cons.prems declaredHeap_nth)
  show ?case
    using IH by (simp add: g1 dh refs1 spec1)
qed

lemma fold_fold_concat:
  "fold (\<lambda>entry g'. fold f (f_symbols (snd entry)) g') fs g =
   fold f (concat (map (\<lambda>entry. f_symbols (snd entry)) fs)) g"
  by (induction fs arbitrary: g) simp_all

lemma buildCrossReferences_fold:
  "buildCrossReferences g = fold findSymbolReferences (fileAddrs (files g)) g"
  by (simp add: buildCrossReferences_def fileAddrs_def fold_fold_concat)

lemma buildCrossReferences_props:
  assumes valid: "\<forall>a \<in> set (fileAddrs (files g)). a < length (heap g)"
  shows "files (buildCrossReferences g) = files g"
    "symbols (buildCrossReferences g) = symbols g"
    "nodes (buildCrossReferences g) = nodes g"
    "dependencies (buildCrossReferences g) = dependencies g"
    "declaredHeap (heap (buildCrossReferences g)) = declaredHeap (heap g)"
    "length (heap (buildCrossReferences g)) = length (heap g)"
    "\<And>b. b < length (heap g) \<Longrightarrow>
       s_references (heap (buildCrossReferences g) ! b) =
         (if b \<in> set (fileAddrs (files g)) then specReferences g (heap g ! b)
          else s_references (heap g ! b))"
    "\<And>b. b < length (heap g) \<Longrightarrow>
       specReferences (buildCrossReferences g) (heap (buildCrossReferences g) ! b) =
       specReferences g (heap g ! b)"
proof -
  note f = fold_findSymbolReferences[OF valid, of "fileAddrs (files g)",
      folded buildCrossReferences_fold]
  show "files (buildCrossReferences g) = files g"
    "symbols (buildCrossReferences g) = symbols g"
    "nodes (buildCrossReferences g) = nodes g"
    "dependencies (buildCrossReferences g) = dependencies g"
    and dh: "declaredHeap (heap (buildCrossReferences g)) = declaredHeap (heap g)"
    using f by simp_all
  show "length (heap (buildCrossReferences g)) = length (heap g)"
    using dh by (rule declaredHeap_length)
  show "\<And>b. b < length (heap g) \<Longrightarrow>
       s_references (heap (buildCrossReferences g) ! b) =
         (if b \<in> set (fileAddrs (files g)) then specReferences g (heap g ! b)
          else s_references (heap g ! b))"
    using f by simp
  show "\<And>b. b < length (heap g) \<Longrightarrow>
       specReferences (buildCrossReferences g) (heap (buildCrossReferences g) ! b) =
       specReferences g (heap g ! b)"
    using f by (intro specReferences_cong valid declaredHeap_nth) simp_all
qed

subsection \<open>Map operations and the store invariant\<close>

lemma set_map_set: "set (map_set m k v) \<subseteq> insert (k, v) (set m)"
  by (induction m) (auto split: if_splits)

lemma map_set_mem: "(k, v) \<in> set (map_set m k v)"
  by (induction m) auto

lemma map_set_keep: "e \<in> set m \<Longrightarrow> fst e \<noteq> k \<Longrightarrow> e \<in> set (map_set m k v)"
  by (induction m) auto

lemma keys_map_set: "fst ` set (map_set m k v) = insert k (fst ` set m)"
proof (induction m)
  case Nil
  show ?case by simp
next
  case (Cons e m)
  obtain k' v' where e: "e = (k', v')" by (cases e)
  show ?case using Cons by (cases "k' = k") (auto simp: e)
qed

lemma distinct_map_set: "distinct (map fst m) \<Longrightarrow> distinct (map fst (map_set m k v))"
  by (induction m) (auto simp: keys_map_set)

lemma map_set_absent: "k \<notin> fst ` set m \<Longrightarrow> map_set m k v = m @ [(k, v)]"
  by (induction m) auto

lemma set_map_delete: "set (map_delete m k) = {e \<in> set m. fst e \<noteq> k}"
  by (auto simp: map_delete_def)

lemma distinct_map_delete: "distinct (map fst m) \<Longrightarrow> distinct (map fst (map_delete m k))"
  by (simp add: map_delete_def distinct_map_filter)

lemma map_get_None: "(map_get m k = None) = (k \<notin> fst ` set m)"
  by (simp add: map_get_def map_of_eq_None_iff)

lemma map_get_SomeD: "map_get m k = Some v \<Longrightarrow> (k, v) \<in> set m"
  by (simp add: map_get_def map_of_SomeD)

lemma map_get_unique:
  "distinct (map fst m) \<Longrightarrow> map_get m k = Some v \<Longrightarrow> e \<in> set m \<Longrightarrow> fst e = k \<Longrightarrow> snd e = v"
proof -
  assume d: "distinct (map fst m)" and g: "map_get m k = Some v" and e: "e \<in> set m"
    and k: "fst e = k"
  have "(k, snd e) \<in> set m" using e k by (cases e) auto
  then have "map_of m k = Some (snd e)" by (rule map_of_is_SomeI[OF d])
  with g show ?thesis by (simp add: map_get_def)
qed

lemma map_get_map_delete:
  "map_get (map_delete m k) k' = (if k' = k then None else map_get m k')"
  by (induction m) (auto simp: map_get_def map_delete_def)

lemma set_fold_map_set:
  "set (fold (\<lambda>a m. map_set m (f a) a) as m) \<subseteq> set m \<union> (\<lambda>a. (f a, a)) ` set as"
proof (induction as arbitrary: m)
  case Nil
  then show ?case by simp
next
  case (Cons a as)
  show ?case using Cons.IH[of "map_set m (f a) a"] set_map_set[of m "f a" a] by auto
qed

lemma set_fold_map_delete:
  "set (fold (\<lambda>a m. map_delete m (f a)) as m) = {e \<in> set m. fst e \<notin> f ` set as}"
  by (induction as arbitrary: m) (auto simp: set_map_delete)

lemma set_fileAddrs: "set (fileAddrs fs) = (\<Union>entry \<in> set fs. set (f_symbols (snd entry)))"
  by (simp add: fileAddrs_def)

lemma distinct_fileAddrs_map_set:
  assumes "distinct (fileAddrs fs)" "distinct (f_symbols rec)"
    "set (f_symbols rec) \<inter> set (fileAddrs fs) = {}"
  shows "distinct (fileAddrs (map_set fs k rec))"
  using assms
proof (induction fs)
  case Nil
  then show ?case by (simp add: fileAddrs_def)
next
  case (Cons e fs)
  obtain k' r' where e: "e = (k', r')" by (cases e)
  have sub: "set (fileAddrs (map_set fs k rec)) \<subseteq> set (f_symbols rec) \<union> set (fileAddrs fs)"
    using set_map_set[of fs k rec] by (auto simp: set_fileAddrs)
  show ?case
  proof (cases "k' = k")
    case True
    then show ?thesis using Cons.prems by (auto simp: e fileAddrs_def)
  next
    case False
    have "distinct (fileAddrs (map_set fs k rec))"
      using Cons by (auto simp: e fileAddrs_def)
    moreover have "set (f_symbols r') \<inter> set (fileAddrs (map_set fs k rec)) = {}"
      using sub Cons.prems by (auto simp: e fileAddrs_def)
    ultimately show ?thesis using False Cons.prems by (auto simp: e fileAddrs_def)
  qed
qed

lemma distinct_fileAddrs_map_delete:
  "distinct (fileAddrs fs) \<Longrightarrow> distinct (fileAddrs (map_delete fs k))"
  by (induction fs) (auto simp: fileAddrs_def map_delete_def)

lemma declaredHeap_fields:
  assumes "declaredHeap h' = declaredHeap h" "a < length h"
  shows "s_filePath (h' ! a) = s_filePath (h ! a)" "s_id (h' ! a) = s_id (h ! a)"
    "s_name (h' ! a) = s_name (h ! a)" "s_type (h' ! a) = s_type (h ! a)"
  using declared_eqD[OF declaredHeap_nth[OF assms]] by simp_all

lemma graph_inv_valid: "graph_inv g \<Longrightarrow> \<forall>a \<in> set (fileAddrs (files g)). a < length (heap g)"
  by (auto simp: graph_inv_def validFiles_def set_fileAddrs)

lemma graph_inv_build:
  assumes "graph_inv g"
  shows "graph_inv (buildCrossReferences g)"
proof -
  note p = buildCrossReferences_props[OF graph_inv_valid[OF assms]]
  have "validFiles (buildCrossReferences g)"
    using assms by (auto simp: graph_inv_def validFiles_def p(1,6) declaredHeap_fields[OF p(5)])
  moreover have "validSymbols (buildCrossReferences g)"
    using assms by (auto simp: graph_inv_def validSymbols_def p(2,6) declaredHeap_fields[OF p(5)])
  ultimately show ?thesis using assms by (simp add: graph_inv_def p(1))
qed

lemma wf_fileD:
  "wf_file F \<Longrightarrow> i < length (f_symbols F) \<Longrightarrow> s_filePath (f_symbols F ! i) = f_filePath F"
  by (simp add: wf_file_def list_all_length)

lemma graph_inv_entered:
  assumes inv: "graph_inv g" and wf: "wf_file F"
  shows "graph_inv (entered g F)"
proof -
  let ?n = "length (heap g)"
  let ?h = "heap g @ f_symbols F"
  have old: "\<And>a. a \<in> set (fileAddrs (files g)) \<Longrightarrow> a < ?n"
    using graph_inv_valid[OF inv] by simp
  have files_sub: "set (files (entered g F)) \<subseteq> insert (f_filePath F, storedRecord g F) (set (files g))"
    by (simp add: entered_def set_map_set)
  have vf: "validFiles (entered g F)"
    unfolding validFiles_def
  proof (intro ballI conjI)
    fix entry assume e: "entry \<in> set (files (entered g F))"
    then show "f_filePath (snd entry) = fst entry"
      using files_sub inv by (auto simp: graph_inv_def validFiles_def storedRecord_def)
  next
    fix entry dep assume e: "entry \<in> set (files (entered g F))"
      and d: "dep \<in> set (f_dependencies (snd entry))"
    show "d_from dep = fst entry"
    proof (cases "entry = (f_filePath F, storedRecord g F)")
      case True
      then show ?thesis using d wf by (auto simp: storedRecord_def wf_file_def list_all_iff)
    next
      case False
      then have "entry \<in> set (files g)" using e files_sub by auto
      then show ?thesis using d inv by (auto simp: graph_inv_def validFiles_def)
    qed
  next
    fix entry assume e: "entry \<in> set (files (entered g F))"
    fix a assume a: "a \<in> set (f_symbols (snd entry))"
    have both: "a < length (heap (entered g F)) \<and>
                s_filePath (heap (entered g F) ! a) = fst entry"
    proof (cases "entry = (f_filePath F, storedRecord g F)")
      case True
      then have "?n \<le> a" "a - ?n < length (f_symbols F)"
        using a by (auto simp: storedRecord_def)
      then show ?thesis using True wf_fileD[OF wf, of "a - ?n"]
        by (auto simp: entered_def nth_append)
    next
      case False
      then have "entry \<in> set (files g)" using e files_sub by auto
      then have "a < ?n \<and> s_filePath (heap g ! a) = fst entry"
        using a inv by (auto simp: graph_inv_def validFiles_def)
      then show ?thesis
        by (simp add: entered_def nth_append)
    qed
    show "a < length (heap (entered g F))" using both by simp
    show "s_filePath (heap (entered g F) ! a) = fst entry" using both by simp
  qed
  have vs: "validSymbols (entered g F)"
    unfolding validSymbols_def
  proof (intro ballI)
    fix entry assume "entry \<in> set (symbols (entered g F))"
    then have "entry \<in> set (symbols g) \<or>
               entry \<in> (\<lambda>a. (s_id (?h ! a), a)) ` set (f_symbols (storedRecord g F))"
      using set_fold_map_set[of "\<lambda>a. s_id (?h ! a)" "f_symbols (storedRecord g F)" "symbols g"]
      by (auto simp: entered_def)
    then show "snd entry < length (heap (entered g F)) \<and>
               s_id (heap (entered g F) ! snd entry) = fst entry"
      using inv
      by (auto simp: graph_inv_def validSymbols_def entered_def storedRecord_def nth_append)
  qed
  have dk: "distinct (map fst (files (entered g F)))"
    using inv by (simp add: entered_def graph_inv_def distinct_map_set)
  have "set (f_symbols (storedRecord g F)) \<inter> set (fileAddrs (files g)) = {}"
    using old by (fastforce simp: storedRecord_def)
  moreover have "distinct (f_symbols (storedRecord g F))"
    by (simp add: storedRecord_def)
  ultimately have da: "distinct (fileAddrs (files (entered g F)))"
    using inv by (simp add: entered_def graph_inv_def distinct_fileAddrs_map_set)
  show ?thesis using vf vs dk da by (simp add: graph_inv_def)
qed

lemma graph_inv_dropped:
  assumes inv: "graph_inv g"
  shows "graph_inv (dropped g p rec)"
proof -
  have "validFiles (dropped g p rec)"
    using inv by (auto simp: graph_inv_def validFiles_def dropped_def set_map_delete)
  moreover have "validSymbols (dropped g p rec)"
    using inv by (auto simp: graph_inv_def validSymbols_def dropped_def set_fold_map_delete)
  ultimately show ?thesis
    using inv
    by (simp add: graph_inv_def dropped_def distinct_map_delete distinct_fileAddrs_map_delete)
qed

lemma graph_inv_empty: "graph_inv emptyGraph"
  by (simp add: graph_inv_def validFiles_def validSymbols_def emptyGraph_def fileAddrs_def)

lemma graph_inv_addFile: "graph_inv g \<Longrightarrow> wf_file F \<Longrightarrow> graph_inv (addFile g F)"
  by (simp add: addFile_entered graph_inv_build graph_inv_entered)

lemma graph_inv_removeFile: "graph_inv g \<Longrightarrow> graph_inv (removeFile g p)"
  by (cases "map_get (files g) p")
     (simp_all add: removeFile_absent removeFile_dropped graph_inv_build graph_inv_dropped)

lemma reachable_inv: "reachable g \<Longrightarrow> graph_inv g"
  by (induction rule: reachable.induct)
     (simp_all add: graph_inv_empty graph_inv_addFile graph_inv_removeFile)

lemma reachable_pre_reachable: "reachable_pre g \<Longrightarrow> reachable g"
  by (induction rule: reachable_pre.induct) (auto intro: reachable.intros)

subsection \<open>Reference lists of reachable states\<close>

lemma build_rebuilt:
  assumes valid: "\<forall>a \<in> set (fileAddrs (files g)). a < length (heap g)"
    and a: "a \<in> set (fileAddrs (files g))"
  shows "s_references (heap (buildCrossReferences g) ! a) =
         specReferences (buildCrossReferences g) (heap (buildCrossReferences g) ! a)"
proof -
  have "a < length (heap g)" using valid a by simp
  then show ?thesis
    using buildCrossReferences_props(7,8)[OF valid, of a] a by simp
qed

lemma inv_build_rebuilt:
  assumes "graph_inv g0" "a \<in> set (fileAddrs (files (buildCrossReferences g0)))"
  shows "s_references (heap (buildCrossReferences g0) ! a) =
         specReferences (buildCrossReferences g0) (heap (buildCrossReferences g0) ! a)"
  using assms build_rebuilt[OF graph_inv_valid[OF assms(1)], of a]
  by (simp add: buildCrossReferences_props(1)[OF graph_inv_valid[OF assms(1)]])

lemma reachable_rebuilt:
  "reachable g \<Longrightarrow> a \<in> set (fileAddrs (files g)) \<Longrightarrow>
   s_references (heap g ! a) = specReferences g (heap g ! a)"
proof (induction arbitrary: a rule: reachable.induct)
  case reach_empty
  then show ?case by (simp add: emptyGraph_def fileAddrs_def)
next
  case (reach_add g fileAST)
  have "graph_inv (entered g fileAST)"
    using reach_add.hyps by (simp add: graph_inv_entered reachable_inv)
  then show ?case using reach_add.prems
    by (simp only: addFile_entered inv_build_rebuilt)
next
  case (reach_remove g filePath)
  show ?case
  proof (cases "map_get (files g) filePath")
    case None
    then show ?thesis using reach_remove by (simp add: removeFile_absent)
  next
    case (Some rec)
    have "graph_inv (dropped g filePath rec)"
      using reach_remove.hyps by (simp add: graph_inv_dropped reachable_inv)
    then show ?thesis using reach_remove.prems
      by (simp only: removeFile_dropped[OF Some] inv_build_rebuilt)
  qed
qed

lemma specReferences_mem:
  assumes "r \<in> set (specReferences g S)"
  shows "r = definitionReference S \<or>
         (\<exists>entry \<in> set (files g). fst entry \<noteq> s_filePath S \<and>
            (\<exists>I \<in> set (fileSymbols g (snd entry)). specImports I S \<and> r = importReference I))"
  using assms by (auto simp: specReferences_def split: if_splits)

lemma specReferences_import:
  assumes vf: "validFiles g" and r: "r \<in> set (specReferences g S)" and t: "r_type r = ImportRef"
  shows "r_filePath r \<noteq> s_filePath S \<and> r_filePath r \<in> fst ` set (files g)"
proof -
  from specReferences_mem[OF r] t
  obtain entry I where e: "entry \<in> set (files g)" "fst entry \<noteq> s_filePath S"
    and I: "I \<in> set (fileSymbols g (snd entry))" "r = importReference I"
    by (auto simp: definitionReference_def)
  from I(1) obtain a where "a \<in> set (f_symbols (snd entry))" "I = heap g ! a"
    by (auto simp: fileSymbols_def)
  then have "s_filePath I = fst entry"
    using vf e(1) by (auto simp: validFiles_def)
  then show ?thesis using e I(2) by (auto simp: importReference_def)
qed

lemma specReferences_definition:
  "filter (\<lambda>r. r_type r = DefinitionRef) (specReferences g S) = [definitionReference S]"
proof -
  have "\<And>xs. filter (\<lambda>r. r_type r = DefinitionRef) (map importReference xs) = []"
    by (simp add: importReference_def filter_empty_conv)
  then have "filter (\<lambda>r. r_type r = DefinitionRef)
          (concat (map (\<lambda>entry.
                    if fst entry \<noteq> s_filePath S
                    then map importReference
                           (filter (\<lambda>I. specImports I S) (fileSymbols g (snd entry)))
                    else []) (files g))) = []"
    by (induction "files g") (auto simp: filter_empty_conv)
  then show ?thesis
    by (simp add: specReferences_def definitionReference_def)
qed

lemma build_exclusion:
  assumes inv: "graph_inv g0"
    and unowned: "\<And>a r. a < length (heap g0) \<Longrightarrow> a \<notin> set (fileAddrs (files g0)) \<Longrightarrow>
        r \<in> set (s_references (heap g0 ! a)) \<Longrightarrow> r_type r = ImportRef \<Longrightarrow>
        r_filePath r \<noteq> s_filePath (heap g0 ! a)"
    and a: "a < length (heap (buildCrossReferences g0))"
    and r: "r \<in> set (s_references (heap (buildCrossReferences g0) ! a))" "r_type r = ImportRef"
  shows "r_filePath r \<noteq> s_filePath (heap (buildCrossReferences g0) ! a)"
proof -
  note p = buildCrossReferences_props[OF graph_inv_valid[OF inv]]
  have a0: "a < length (heap g0)" using a by (simp add: p(6))
  have fp: "s_filePath (heap (buildCrossReferences g0) ! a) = s_filePath (heap g0 ! a)"
    using declaredHeap_fields(1)[OF p(5) a0] .
  show ?thesis
  proof (cases "a \<in> set (fileAddrs (files g0))")
    case True
    then have "r \<in> set (specReferences g0 (heap g0 ! a))"
      using r(1) p(7)[OF a0] by simp
    moreover have "validFiles g0" using inv by (simp add: graph_inv_def)
    ultimately show ?thesis
      using specReferences_import[of g0 r "heap g0 ! a"] r(2) by (simp add: fp)
  next
    case False
    then have "r \<in> set (s_references (heap g0 ! a))"
      using r(1) p(7)[OF a0] by simp
    then show ?thesis using unowned[OF a0 False _ r(2)] by (simp add: fp)
  qed
qed

lemma entered_new_owned:
  assumes "length (heap g) \<le> a" "a < length (heap (entered g F))"
  shows "a \<in> set (fileAddrs (files (entered g F)))"
proof -
  have "(f_filePath F, storedRecord g F) \<in> set (files (entered g F))"
    by (simp add: entered_def map_set_mem)
  moreover have "a \<in> set (f_symbols (storedRecord g F))"
    using assms by (simp add: storedRecord_def entered_def)
  ultimately show ?thesis by (force simp: set_fileAddrs)
qed

lemma reachable_exclusion:
  "reachable g \<Longrightarrow> a < length (heap g) \<Longrightarrow> r \<in> set (s_references (heap g ! a)) \<Longrightarrow>
   r_type r = ImportRef \<Longrightarrow> r_filePath r \<noteq> s_filePath (heap g ! a)"
proof (induction arbitrary: a r rule: reachable.induct)
  case reach_empty
  then show ?case by (simp add: emptyGraph_def)
next
  case (reach_add g fileAST)
  have inv: "graph_inv (entered g fileAST)"
    using reach_add.hyps by (simp add: graph_inv_entered reachable_inv)
  note prems = reach_add.prems[unfolded addFile_entered]
  show ?case unfolding addFile_entered
  proof (rule build_exclusion[OF inv _ prems])
    fix a r
    assume a: "a < length (heap (entered g fileAST))"
      and no: "a \<notin> set (fileAddrs (files (entered g fileAST)))"
      and r: "r \<in> set (s_references (heap (entered g fileAST) ! a))" "r_type r = ImportRef"
    have old: "a < length (heap g)"
      using entered_new_owned[OF _ a] no by (cases "a < length (heap g)") auto
    then have "heap (entered g fileAST) ! a = heap g ! a"
      by (simp add: entered_def nth_append)
    then show "r_filePath r \<noteq> s_filePath (heap (entered g fileAST) ! a)"
      using reach_add.IH[OF old _ r(2)] r(1) by simp
  qed
next
  case (reach_remove g filePath)
  show ?case
  proof (cases "map_get (files g) filePath")
    case None
    then show ?thesis using reach_remove by (simp add: removeFile_absent)
  next
    case (Some rec)
    have inv: "graph_inv (dropped g filePath rec)"
      using reach_remove.hyps by (simp add: graph_inv_dropped reachable_inv)
    note prems = reach_remove.prems[unfolded removeFile_dropped[OF Some]]
    show ?thesis unfolding removeFile_dropped[OF Some]
    proof (rule build_exclusion[OF inv _ prems])
      fix a r
      assume "a < length (heap (dropped g filePath rec))"
        "r \<in> set (s_references (heap (dropped g filePath rec) ! a))" "r_type r = ImportRef"
      then show "r_filePath r \<noteq> s_filePath (heap (dropped g filePath rec) ! a)"
        using reach_remove.IH[of a r] by (simp add: dropped_def)
    qed
  qed
qed

lemma entered_absent_files:
  "map_get (files g) (f_filePath F) = None \<Longrightarrow>
   files (entered g F) = files g @ [(f_filePath F, storedRecord g F)]"
  by (simp add: entered_def map_set_absent map_get_None)

lemma reachable_pre_owner:
  "reachable_pre g \<Longrightarrow> entry \<in> set (symbols g) \<Longrightarrow> snd entry \<in> set (fileAddrs (files g))"
proof (induction arbitrary: entry rule: reachable_pre.induct)
  case pre_empty
  then show ?case by (simp add: emptyGraph_def)
next
  case (pre_add g fileAST)
  let ?g0 = "entered g fileAST"
  have inv: "graph_inv ?g0"
    using pre_add.hyps by (simp add: graph_inv_entered reachable_inv reachable_pre_reachable)
  note p = buildCrossReferences_props[OF graph_inv_valid[OF inv]]
  from pre_add.prems have e: "entry \<in> set (symbols ?g0)"
    by (simp add: addFile_entered p(2))
  have fs: "fileAddrs (files ?g0) = fileAddrs (files g) @ f_symbols (storedRecord g fileAST)"
    by (simp add: entered_absent_files[OF pre_add.hyps(3)] fileAddrs_def)
  from e have "entry \<in> set (symbols g) \<or> snd entry \<in> set (f_symbols (storedRecord g fileAST))"
    using set_fold_map_set[of "\<lambda>a. s_id ((heap g @ f_symbols fileAST) ! a)"
        "f_symbols (storedRecord g fileAST)" "symbols g"]
    by (auto simp: entered_def)
  then have "snd entry \<in> set (fileAddrs (files ?g0))"
    using pre_add.IH[of entry] by (auto simp: fs)
  then show ?case by (simp add: addFile_entered p(1))
next
  case (pre_remove g filePath)
  show ?case
  proof (cases "map_get (files g) filePath")
    case None
    then show ?thesis using pre_remove by (simp add: removeFile_absent)
  next
    case (Some rec)
    let ?g0 = "dropped g filePath rec"
    have invg: "graph_inv g"
      using pre_remove.hyps by (simp add: reachable_inv reachable_pre_reachable)
    have inv: "graph_inv ?g0" using invg by (rule graph_inv_dropped)
    note p = buildCrossReferences_props[OF graph_inv_valid[OF inv]]
    from pre_remove.prems have e: "entry \<in> set (symbols ?g0)"
      by (simp add: removeFile_dropped[OF Some] p(2))
    then have eg: "entry \<in> set (symbols g)"
      and nid: "fst entry \<notin> (\<lambda>a. s_id (heap g ! a)) ` set (f_symbols rec)"
      by (simp_all add: dropped_def set_fold_map_delete)
    from pre_remove.IH[OF eg] obtain fe where fe: "fe \<in> set (files g)"
      "snd entry \<in> set (f_symbols (snd fe))"
      by (auto simp: set_fileAddrs)
    have sid: "s_id (heap g ! snd entry) = fst entry"
      using invg eg by (auto simp: graph_inv_def validSymbols_def)
    have "fst fe \<noteq> filePath"
    proof
      assume "fst fe = filePath"
      then have "snd fe = rec"
        using map_get_unique[OF _ Some fe(1)] invg by (simp add: graph_inv_def)
      then show False using fe(2) nid sid by force
    qed
    then have "fe \<in> set (files ?g0)"
      using fe(1) by (simp add: dropped_def set_map_delete)
    then have "snd entry \<in> set (fileAddrs (files ?g0))"
      using fe(2) by (auto simp: set_fileAddrs)
    then show ?thesis by (simp add: removeFile_dropped[OF Some] p(1))
  qed
qed

subsection \<open>Node and symbol maps\<close>

lemma set_fold_removeNode:
  assumes "\<And>c m. c \<in> set cs \<Longrightarrow>
             set (removeNodeFromGraph c m) = {e \<in> set m. fst e \<notin> n_id ` set (subnodes c)}"
  shows "set (fold removeNodeFromGraph cs m) =
           {e \<in> set m. fst e \<notin> n_id ` (\<Union>c \<in> set cs. set (subnodes c))}"
  using assms by (induction cs arbitrary: m) auto

lemma set_removeNodeFromGraph:
  "set (removeNodeFromGraph t m) = {e \<in> set m. fst e \<notin> n_id ` set (subnodes t)}"
proof (induction t arbitrary: m)
  case (ASTNode i ty n l cs md)
  show ?case
    using set_fold_removeNode[of cs "map_delete m i", OF ASTNode.IH]
    by (auto simp: set_map_delete)
qed

lemma map_get_fold_addNode:
  assumes "\<And>c m. c \<in> set cs \<Longrightarrow> i \<notin> n_id ` set (subnodes c) \<Longrightarrow>
             map_get (addNodeToGraph c m) i = map_get m i"
    and "i \<notin> n_id ` (\<Union>c \<in> set cs. set (subnodes c))"
  shows "map_get (fold addNodeToGraph cs m) i = map_get m i"
  using assms
proof (induction cs arbitrary: m)
  case Nil
  show ?case by simp
next
  case (Cons a cs)
  have "i \<notin> n_id ` set (subnodes a)" using Cons.prems(2) by auto
  then have 1: "map_get (addNodeToGraph a m) i = map_get m i"
    by (intro Cons.prems(1)) simp_all
  have 2: "map_get (fold addNodeToGraph cs (addNodeToGraph a m)) i =
           map_get (addNodeToGraph a m) i"
    using Cons.prems by (intro Cons.IH) auto
  show ?case using 1 2 by simp
qed

lemma map_get_addNodeToGraph:
  "i \<notin> n_id ` set (subnodes t) \<Longrightarrow> map_get (addNodeToGraph t m) i = map_get m i"
proof (induction t arbitrary: m)
  case (ASTNode j ty n l cs md)
  have "i \<notin> n_id ` (\<Union>c \<in> set cs. set (subnodes c))" "i \<noteq> j"
    using ASTNode.prems by auto
  then show ?case
    using map_get_fold_addNode[of cs i, OF ASTNode.IH]
    by (simp add: map_get_map_set)
qed

lemma map_get_fold_map_set:
  "x \<notin> f ` set as \<Longrightarrow> map_get (fold (\<lambda>a m. map_set m (f a) a) as m) x = map_get m x"
  by (induction as arbitrary: m) (auto simp: map_get_map_set)

lemma set_map_set_distinct:
  "distinct (map fst m) \<Longrightarrow> set (map_set m k v) = insert (k, v) {e \<in> set m. fst e \<noteq> k}"
proof (induction m)
  case Nil
  show ?case by simp
next
  case (Cons e m)
  obtain k' v' where e: "e = (k', v')" by (cases e)
  show ?case
  proof (cases "k' = k")
    case True
    then show ?thesis using Cons.prems by (force simp: e)
  next
    case False
    then show ?thesis using Cons by (auto simp: e)
  qed
qed

lemma keys_map_set_present: "k \<in> fst ` set m \<Longrightarrow> map fst (map_set m k v) = map fst m"
proof (induction m)
  case Nil
  then show ?case by simp
next
  case (Cons e m)
  obtain k' v' where e: "e = (k', v')" by (cases e)
  show ?case using Cons by (cases "k' = k") (auto simp: e)
qed

lemma fileAddrs_unique_owner:
  "distinct (fileAddrs fs) \<Longrightarrow> e1 \<in> set fs \<Longrightarrow> e2 \<in> set fs \<Longrightarrow>
   a \<in> set (f_symbols (snd e1)) \<Longrightarrow> a \<in> set (f_symbols (snd e2)) \<Longrightarrow> e1 = e2"
  by (induction fs) (auto simp: fileAddrs_def)

lemma symbolValues_mem:
  "S \<in> set (symbolValues g) \<Longrightarrow> \<exists>entry \<in> set (symbols g). S = heap g ! snd entry"
  by (auto simp: symbolValues_def)

lemma reachable_pre_references:
  assumes "reachable_pre g" "S \<in> set (symbolValues g)"
  shows "s_references S = specReferences g S"
proof -
  from symbolValues_mem[OF assms(2)] obtain entry
    where e: "entry \<in> set (symbols g)" "S = heap g ! snd entry" by auto
  show ?thesis
    using reachable_rebuilt[OF reachable_pre_reachable[OF assms(1)]
        reachable_pre_owner[OF assms(1) e(1)]] e(2) by simp
qed

lemma sample_graph2_reachable_pre: "reachable_pre sample_graph2"
proof -
  have 1: "reachable_pre (addFile emptyGraph sample_dot_a)"
  proof (rule pre_add[OF pre_empty])
    show "wf_file sample_dot_a" by code_simp
    show "map_get (files emptyGraph) (f_filePath sample_dot_a) = None" by code_simp
  qed
  show ?thesis unfolding sample_graph2_def
  proof (rule pre_add[OF 1])
    show "wf_file sample_dot_b" by code_simp
    show "map_get (files (addFile emptyGraph sample_dot_a)) (f_filePath sample_dot_b) = None"
      by code_simp
  qed
qed

lemma sample_graph3_reachable_pre: "reachable_pre sample_graph3"
  unfolding sample_graph3_def
proof (rule pre_add[OF sample_graph2_reachable_pre])
  show "wf_file sample_dot_c" by code_simp
  show "map_get (files sample_graph2) (f_filePath sample_dot_c) = None" by code_simp
qed

lemma sample_lib_graph_reachable_pre: "reachable_pre sample_lib_graph"
proof -
  have 1: "reachable_pre (addFile emptyGraph sample_lib_a)"
  proof (rule pre_add[OF pre_empty])
    show "wf_file sample_lib_a" by code_simp
    show "map_get (files emptyGraph) (f_filePath sample_lib_a) = None" by code_simp
  qed
  have 2: "reachable_pre (addFile (addFile emptyGraph sample_lib_a) sample_lib_b)"
  proof (rule pre_add[OF 1])
    show "wf_file sample_lib_b" by code_simp
    show "map_get (files (addFile emptyGraph sample_lib_a)) (f_filePath sample_lib_b) = None"
      by code_simp
  qed
  have 3: "reachable_pre
             (addFile (addFile (addFile emptyGraph sample_lib_a) sample_lib_b) sample_lib_c)"
  proof (rule pre_add[OF 2])
    show "wf_file sample_lib_c" by code_simp
    show "map_get (files (addFile (addFile emptyGraph sample_lib_a) sample_lib_b))
            (f_filePath sample_lib_c) = None"
      by code_simp
  qed
  show ?thesis unfolding sample_lib_graph_def
  proof (rule pre_add[OF 3])
    show "wf_file sample_lib_d" by code_simp
    show "map_get
            (files (addFile (addFile (addFile emptyGraph sample_lib_a) sample_lib_b) sample_lib_c))
            (f_filePath sample_lib_d) = None"
      by code_simp
  qed
qed

subsection \<open>Cross-reference rebuild\<close>

text \<open>
  C4 (cross-reference rebuild formula). In every state reached by \<open>addFile\<close> and
  \<open>removeFile\<close> calls that honour the precondition of \<open>addFile\<close>, every symbol \<open>S\<close>
  of the symbol map has the reference list the specification prescribes: the
  definition reference of \<open>S\<close>, followed by one import reference for every symbol \<open>I\<close>
  of a different file that is an import, whose source starts with \<open>./\<close> or \<open>../\<close> and,
  with a final \<open>.js\<close>, \<open>.ts\<close>, \<open>.jsx\<close> or \<open>.tsx\<close> taken off, is a substring of the file
  path of \<open>S\<close>, and whose imported name or alias is the name of \<open>S\<close>. In particular it
  holds exactly one definition reference, that of \<open>S\<close> itself. The left-hand side is
  what the loops of \<open>findSymbolReferences\<close> stored; the right-hand side is the formula.
\<close>

theorem cross_reference_formula:
  assumes "reachable_pre g" "S \<in> set (symbolValues g)"
  shows "s_references S = specReferences g S \<and>
         filter (\<lambda>r. r_type r = DefinitionRef) (s_references S) = [definitionReference S]"
  using reachable_pre_references[OF assms] by (simp add: specReferences_definition)

theorem cross_reference_formula_witness:
  "reachable_pre sample_lib_graph \<and>
   hd (symbolValues sample_lib_graph) \<in> set (symbolValues sample_lib_graph) \<and>
   declared (hd (symbolValues sample_lib_graph)) = sample_function ''src/./lib/a.ts'' ''add'' \<and>
   s_references (hd (symbolValues sample_lib_graph)) =
     [definitionReference (sample_function ''src/./lib/a.ts'' ''add''),
      importReference (sample_import ''src/b.ts'' ''add'' ''./lib/a.jsx'')] \<and>
   specReferences sample_lib_graph (hd (symbolValues sample_lib_graph)) =
     [definitionReference (sample_function ''src/./lib/a.ts'' ''add''),
      importReference (sample_import ''src/b.ts'' ''add'' ''./lib/a.jsx'')] \<and>
   reachable_pre sample_graph3 \<and>
   hd (symbolValues sample_graph3) \<in> set (symbolValues sample_graph3) \<and>
   s_references (hd (symbolValues sample_graph3)) =
     [definitionReference (sample_function ''./a.ts'' ''add''),
      importReference (sample_import ''./b.ts'' ''add'' ''./a''),
      importReference (sample_import ''./c.ts'' ''add'' ''./a.ts'')]"
proof -
  note h1 = sample_lib_graph_reachable_pre
  have h2: "hd (symbolValues sample_lib_graph) \<in> set (symbolValues sample_lib_graph)"
    by code_simp
  have d: "declared (hd (symbolValues sample_lib_graph)) =
           sample_function ''src/./lib/a.ts'' ''add''"
    by code_simp
  have stored: "s_references (hd (symbolValues sample_lib_graph)) =
     [definitionReference (sample_function ''src/./lib/a.ts'' ''add''),
      importReference (sample_import ''src/b.ts'' ''add'' ''./lib/a.jsx'')]"
    by code_simp
  have formula: "specReferences sample_lib_graph (hd (symbolValues sample_lib_graph)) =
     [definitionReference (sample_function ''src/./lib/a.ts'' ''add''),
      importReference (sample_import ''src/b.ts'' ''add'' ''./lib/a.jsx'')]"
    by code_simp
  note k1 = sample_graph3_reachable_pre
  have k2: "hd (symbolValues sample_graph3) \<in> set (symbolValues sample_graph3)"
    by code_simp
  have e: "specReferences sample_graph3 (hd (symbolValues sample_graph3)) =
     [definitionReference (sample_function ''./a.ts'' ''add''),
      importReference (sample_import ''./b.ts'' ''add'' ''./a''),
      importReference (sample_import ''./c.ts'' ''add'' ''./a.ts'')]"
    by code_simp
  from cross_reference_formula[OF h1 h2] cross_reference_formula[OF k1 k2]
    h1 h2 d stored formula k1 k2 e
  show ?thesis by simp
qed

text \<open>
  C8 (self-reference exclusion). In every state reached by \<open>addFile\<close> and \<open>removeFile\<close>
  calls, with or without the precondition of \<open>addFile\<close>, no import reference in the list
  of a symbol, be it an entry of the symbol map or a symbol of a stored record, names
  the symbol's own file.
\<close>

theorem self_reference_exclusion:
  assumes "reachable g"
    and "S \<in> set (symbolValues g) \<union> (\<Union>entry \<in> set (files g). set (fileSymbols g (snd entry)))"
    and "r \<in> set (s_references S)" "r_type r = ImportRef"
  shows "r_filePath r \<noteq> s_filePath S"
proof -
  have inv: "graph_inv g" using assms(1) by (rule reachable_inv)
  from assms(2) obtain a where "a < length (heap g)" "S = heap g ! a"
  proof
    assume "S \<in> set (symbolValues g)"
    then obtain entry where "entry \<in> set (symbols g)" "S = heap g ! snd entry"
      using symbolValues_mem by blast
    then show ?thesis using that inv by (auto simp: graph_inv_def validSymbols_def)
  next
    assume "S \<in> (\<Union>entry \<in> set (files g). set (fileSymbols g (snd entry)))"
    then obtain entry a where "entry \<in> set (files g)" "a \<in> set (f_symbols (snd entry))"
      "S = heap g ! a" by (auto simp: fileSymbols_def)
    then show ?thesis using that inv by (auto simp: graph_inv_def validFiles_def)
  qed
  then show ?thesis using reachable_exclusion[OF assms(1) _ _ assms(4)] assms(3) by simp
qed

theorem self_reference_exclusion_witness:
  "reachable sample_graph3 \<and>
   hd (symbolValues sample_graph3) \<in> set (symbolValues sample_graph3) \<and>
   importReference (sample_import ''./b.ts'' ''add'' ''./a'')
     \<in> set (s_references (hd (symbolValues sample_graph3))) \<and>
   r_type (importReference (sample_import ''./b.ts'' ''add'' ''./a'')) = ImportRef \<and>
   r_filePath (importReference (sample_import ''./b.ts'' ''add'' ''./a'')) \<noteq>
     s_filePath (hd (symbolValues sample_graph3))"
proof -
  have h1: "reachable sample_graph3"
    using sample_graph3_reachable_pre by (rule reachable_pre_reachable)
  have h2: "hd (symbolValues sample_graph3) \<in> set (symbolValues sample_graph3)"
    by code_simp
  have h3: "importReference (sample_import ''./b.ts'' ''add'' ''./a'')
              \<in> set (s_references (hd (symbolValues sample_graph3)))"
    by code_simp
  have h4: "r_type (importReference (sample_import ''./b.ts'' ''add'' ''./a'')) = ImportRef"
    by (simp add: importReference_def)
  from self_reference_exclusion[OF h1 UnI1[OF h2] h3 h4] h1 h2 h3 h4
  show ?thesis by simp
qed

subsection \<open>Removal\<close>

text \<open>
  C3 (no dangling references). In a state reached with the precondition of \<open>addFile\<close>
  honoured, after \<open>removeFile(p)\<close> for a path \<open>p\<close> of the file map: no reference in the
  list of any symbol left in the symbol map names \<open>p\<close>; the symbols of the removed
  record are gone from the symbol map, by id and by object; the ids of all its syntax
  nodes are gone from the node map; no remaining edge starts at \<open>p\<close> or belongs to the
  removed record; and the file map has no entry for \<open>p\<close>.
\<close>

theorem removeFile_no_dangling:
  assumes pre: "reachable_pre g" and present: "map_get (files g) p = Some rec"
  shows "(\<forall>S \<in> set (symbolValues (removeFile g p)). \<forall>r \<in> set (s_references S). r_filePath r \<noteq> p) \<and>
         (\<forall>a \<in> set (f_symbols rec).
            map_get (symbols (removeFile g p)) (s_id (heap g ! a)) = None \<and>
            a \<notin> snd ` set (symbols (removeFile g p))) \<and>
         (\<forall>n \<in> set (subnodes (f_ast rec)). map_get (nodes (removeFile g p)) (n_id n) = None) \<and>
         (\<forall>dep \<in> set (dependencies (removeFile g p)).
            d_from dep \<noteq> p \<and> dep \<notin> set (f_dependencies rec)) \<and>
         map_get (files (removeFile g p)) p = None"
proof -
  let ?g0 = "dropped g p rec"
  let ?g' = "removeFile g p"
  have invg: "graph_inv g" using pre by (simp add: reachable_inv reachable_pre_reachable)
  have inv0: "graph_inv ?g0" using invg by (rule graph_inv_dropped)
  note b = buildCrossReferences_props[OF graph_inv_valid[OF inv0]]
  have g': "?g' = buildCrossReferences ?g0" using present by (rule removeFile_dropped)
  have pre': "reachable_pre ?g'" using pre by (rule reachable_pre.pre_remove)
  have inv': "graph_inv ?g'" using pre' by (simp add: reachable_inv reachable_pre_reachable)
  have d: "files ?g0 = map_delete (files g) p"
    "symbols ?g0 = fold (\<lambda>a m. map_delete m (s_id (heap g ! a))) (f_symbols rec) (symbols g)"
    "nodes ?g0 = removeNodeFromGraph (f_ast rec) (nodes g)"
    "dependencies ?g0 = filter (\<lambda>dep. d_from dep \<noteq> p) (dependencies g)"
    by (simp_all add: dropped_def)
  have files': "files ?g' = map_delete (files g) p" by (simp only: g' b(1) d)
  have nokey: "p \<notin> fst ` set (files ?g')" by (auto simp: files' set_map_delete)
  have c1: "\<forall>S \<in> set (symbolValues ?g'). \<forall>r \<in> set (s_references S). r_filePath r \<noteq> p"
  proof (intro ballI)
    fix S r assume S: "S \<in> set (symbolValues ?g')" and r: "r \<in> set (s_references S)"
    from symbolValues_mem[OF S] obtain entry
      where e: "entry \<in> set (symbols ?g')" "S = heap ?g' ! snd entry" by auto
    from reachable_pre_owner[OF pre' e(1)] obtain fe
      where fe: "fe \<in> set (files ?g')" "snd entry \<in> set (f_symbols (snd fe))"
      by (auto simp: set_fileAddrs)
    have own: "s_filePath S = fst fe"
      using inv' fe e(2) by (auto simp: graph_inv_def validFiles_def)
    have r': "r \<in> set (specReferences ?g' S)"
      using reachable_pre_references[OF pre' S] r by simp
    have vf: "validFiles ?g'" using inv' by (simp add: graph_inv_def)
    show "r_filePath r \<noteq> p"
    proof (cases "r_type r = ImportRef")
      case True
      then show ?thesis using specReferences_import[OF vf r'] nokey by auto
    next
      case False
      then have "r = definitionReference S"
        using specReferences_mem[OF r'] by (auto simp: importReference_def)
      then show ?thesis using own fe(1) nokey by (auto simp: definitionReference_def)
    qed
  qed
  have syms': "set (symbols ?g') =
      {e \<in> set (symbols g). fst e \<notin> (\<lambda>a. s_id (heap g ! a)) ` set (f_symbols rec)}"
    by (simp only: g' b(2) d set_fold_map_delete)
  have c2: "\<forall>a \<in> set (f_symbols rec).
            map_get (symbols ?g') (s_id (heap g ! a)) = None \<and> a \<notin> snd ` set (symbols ?g')"
  proof (intro ballI conjI)
    fix a assume a: "a \<in> set (f_symbols rec)"
    show "map_get (symbols ?g') (s_id (heap g ! a)) = None"
      using a by (auto simp: map_get_None syms')
    show "a \<notin> snd ` set (symbols ?g')"
    proof
      assume "a \<in> snd ` set (symbols ?g')"
      then obtain e where e: "e \<in> set (symbols ?g')" "snd e = a" by auto
      then have "e \<in> set (symbols g)" by (simp add: syms')
      then have "s_id (heap g ! a) = fst e"
        using invg e(2) by (auto simp: graph_inv_def validSymbols_def)
      then have "fst e \<in> (\<lambda>a. s_id (heap g ! a)) ` set (f_symbols rec)"
        using a by (metis imageI)
      then show False using e(1) by (simp add: syms')
    qed
  qed
  have c3: "\<forall>n \<in> set (subnodes (f_ast rec)). map_get (nodes ?g') (n_id n) = None"
    unfolding g' b(3) d by (auto simp: map_get_None set_removeNodeFromGraph)
  have recdeps: "\<forall>dep \<in> set (f_dependencies rec). d_from dep = p"
    using invg map_get_SomeD[OF present] by (fastforce simp: graph_inv_def validFiles_def)
  have c4: "\<forall>dep \<in> set (dependencies ?g'). d_from dep \<noteq> p \<and> dep \<notin> set (f_dependencies rec)"
    unfolding g' b(4) d using recdeps by auto
  have c5: "map_get (files ?g') p = None"
    using nokey by (simp add: map_get_None)
  show ?thesis using c1 c2 c3 c4 c5 by blast
qed

theorem removeFile_no_dangling_witness:
  "reachable_pre sample_graph3 \<and>
   map_get (files sample_graph3) ''./b.ts'' =
     Some (storedRecord (addFile emptyGraph sample_dot_a) sample_dot_b) \<and>
   map_get (files (removeFile sample_graph3 ''./b.ts'')) ''./b.ts'' = None \<and>
   map (\<lambda>S. map r_filePath (s_references S)) (symbolValues (removeFile sample_graph3 ''./b.ts'')) =
     [[''./a.ts'', ''./c.ts''], [''./c.ts'']] \<and>
   map d_from (dependencies (removeFile sample_graph3 ''./b.ts'')) = [''./c.ts'']"
proof -
  note h1 = sample_graph3_reachable_pre
  have h2: "map_get (files sample_graph3) ''./b.ts'' =
              Some (storedRecord (addFile emptyGraph sample_dot_a) sample_dot_b)"
    by code_simp
  have e1: "map (\<lambda>S. map r_filePath (s_references S))
              (symbolValues (removeFile sample_graph3 ''./b.ts'')) =
            [[''./a.ts'', ''./c.ts''], [''./c.ts'']]"
    by code_simp
  have e2: "map d_from (dependencies (removeFile sample_graph3 ''./b.ts'')) = [''./c.ts'']"
    by code_simp
  from removeFile_no_dangling[OF h1 h2] h1 h2 e1 e2 show ?thesis by simp
qed

subsection \<open>Adding over an existing record\<close>

text \<open>
  C9 (\<open>addFile\<close> without the prior removal). When \<open>addFile\<close> is called while the file map
  holds a record \<open>old\<close> under the same path: the new record replaces the old one where
  it stands; the symbol map is unchanged at every id that does not occur in the new
  record, so the old record's symbols with such ids stay; the symbol objects of the old
  record are untouched and belong to no record of the file map any more; the node map
  is unchanged at every id that does not occur in the new tree; and the edge list is
  the old list followed by the new record's edges, so every old edge stays.
\<close>

theorem addFile_without_removal:
  assumes reach: "reachable g" and present: "map_get (files g) (f_filePath F) = Some old"
  shows "map_get (files (addFile g F)) (f_filePath F) = Some (storedRecord g F) \<and>
         map fst (files (addFile g F)) = map fst (files g) \<and>
         (\<forall>x. x \<notin> s_id ` set (f_symbols F) \<longrightarrow>
              map_get (symbols (addFile g F)) x = map_get (symbols g) x) \<and>
         (\<forall>a \<in> set (f_symbols old).
              heap (addFile g F) ! a = heap g ! a \<and>
              a \<notin> set (fileAddrs (files (addFile g F)))) \<and>
         (\<forall>i. i \<notin> n_id ` set (subnodes (f_ast F)) \<longrightarrow>
              map_get (nodes (addFile g F)) i = map_get (nodes g) i) \<and>
         dependencies (addFile g F) = dependencies g @ f_dependencies F"
proof -
  let ?g0 = "entered g F"
  let ?p = "f_filePath F"
  have invg: "graph_inv g" using reach by (rule reachable_inv)
  have valid0: "\<forall>a \<in> set (fileAddrs (files ?g0)). a < length (heap ?g0)"
  proof
    fix a assume "a \<in> set (fileAddrs (files ?g0))"
    then obtain e where e: "e \<in> set (files ?g0)" "a \<in> set (f_symbols (snd e))"
      by (auto simp: set_fileAddrs)
    then have "e = (?p, storedRecord g F) \<or> e \<in> set (files g)"
      using set_map_set[of "files g" ?p "storedRecord g F"] by (auto simp: entered_def)
    then show "a < length (heap ?g0)"
    proof
      assume "e = (?p, storedRecord g F)"
      then show ?thesis using e(2) by (simp add: storedRecord_def entered_def)
    next
      assume "e \<in> set (files g)"
      then have "a < length (heap g)"
        using e(2) invg by (auto simp: graph_inv_def validFiles_def)
      then show ?thesis by (simp add: entered_def)
    qed
  qed
  note b = buildCrossReferences_props[OF valid0]
  have key: "?p \<in> fst ` set (files g)"
    using map_get_SomeD[OF present] by force
  have d: "files ?g0 = map_set (files g) ?p (storedRecord g F)"
    "symbols ?g0 = fold (\<lambda>a m. map_set m (s_id ((heap g @ f_symbols F) ! a)) a)
                     (f_symbols (storedRecord g F)) (symbols g)"
    "nodes ?g0 = addNodeToGraph (f_ast F) (nodes g)"
    "dependencies ?g0 = dependencies g @ f_dependencies F"
    by (simp_all add: entered_def)
  have c1: "map_get (files (addFile g F)) ?p = Some (storedRecord g F)"
    unfolding addFile_entered b(1) d by (simp add: map_get_map_set)
  have c2: "map fst (files (addFile g F)) = map fst (files g)"
    unfolding addFile_entered b(1) d using key by (simp add: keys_map_set_present)
  have ids: "(\<lambda>a. s_id ((heap g @ f_symbols F) ! a)) ` set (f_symbols (storedRecord g F)) =
             s_id ` set (f_symbols F)"
  proof -
    have "map (\<lambda>a. s_id ((heap g @ f_symbols F) ! a)) (f_symbols (storedRecord g F)) =
          map s_id (f_symbols F)"
      by (auto simp: storedRecord_def nth_append intro!: nth_equalityI)
    then show ?thesis by (metis image_set)
  qed
  have c3: "\<forall>x. x \<notin> s_id ` set (f_symbols F) \<longrightarrow>
              map_get (symbols (addFile g F)) x = map_get (symbols g) x"
    unfolding addFile_entered b(2) d using ids by (simp add: map_get_fold_map_set)
  have c4: "\<forall>a \<in> set (f_symbols old).
              heap (addFile g F) ! a = heap g ! a \<and> a \<notin> set (fileAddrs (files (addFile g F)))"
  proof
    fix a assume a: "a \<in> set (f_symbols old)"
    have oldin: "(?p, old) \<in> set (files g)" using present by (rule map_get_SomeD)
    then have alt: "a < length (heap g)"
      using a invg by (fastforce simp: graph_inv_def validFiles_def)
    have notowned: "a \<notin> set (fileAddrs (files ?g0))"
    proof
      assume "a \<in> set (fileAddrs (files ?g0))"
      then obtain e where e: "e \<in> set (files ?g0)" "a \<in> set (f_symbols (snd e))"
        by (auto simp: set_fileAddrs)
      have "set (files ?g0) = insert (?p, storedRecord g F) {e \<in> set (files g). fst e \<noteq> ?p}"
        using invg by (simp add: entered_def graph_inv_def set_map_set_distinct)
      then have "e = (?p, storedRecord g F) \<or> (e \<in> set (files g) \<and> fst e \<noteq> ?p)"
        using e(1) by auto
      then show False
      proof
        assume "e = (?p, storedRecord g F)"
        then show False using e(2) alt by (simp add: storedRecord_def)
      next
        assume x: "e \<in> set (files g) \<and> fst e \<noteq> ?p"
        then have "e = (?p, old)"
          using fileAddrs_unique_owner[of "files g" e "(?p, old)" a] invg oldin e(2) a
          by (simp add: graph_inv_def)
        then show False using x by simp
      qed
    qed
    have a0: "a < length (heap ?g0)" using alt by (simp add: entered_def)
    have "declared (heap (addFile g F) ! a) = declared (heap ?g0 ! a)"
      using declaredHeap_nth[OF b(5) a0] by (simp add: addFile_entered)
    moreover have "s_references (heap (addFile g F) ! a) = s_references (heap ?g0 ! a)"
      using b(7)[OF a0] notowned by (simp add: addFile_entered)
    ultimately have "heap (addFile g F) ! a = heap ?g0 ! a" by (rule declared_restore)
    moreover have "heap ?g0 ! a = heap g ! a" using alt by (simp add: entered_def nth_append)
    ultimately show "heap (addFile g F) ! a = heap g ! a \<and>
                     a \<notin> set (fileAddrs (files (addFile g F)))"
      using notowned by (simp add: addFile_entered b(1))
  qed
  have c5: "\<forall>i. i \<notin> n_id ` set (subnodes (f_ast F)) \<longrightarrow>
              map_get (nodes (addFile g F)) i = map_get (nodes g) i"
    unfolding addFile_entered b(3) d by (simp add: map_get_addNodeToGraph)
  have c6: "dependencies (addFile g F) = dependencies g @ f_dependencies F"
    unfolding addFile_entered b(4) d by simp
  show ?thesis using c1 c2 c3 c4 c5 c6 by blast
qed

theorem addFile_without_removal_witness:
  "reachable sample_graph2 \<and>
   map_get (files sample_graph2) (f_filePath sample_dot_a2) =
     Some (storedRecord emptyGraph sample_dot_a) \<and>
   dependencies (addFile sample_graph2 sample_dot_a2) =
     dependencies sample_graph2 @ f_dependencies sample_dot_a2 \<and>
   map s_name (symbolValues (addFile sample_graph2 sample_dot_a2)) = [''add'', ''add'', ''sub''] \<and>
   map snd (symbols (addFile sample_graph2 sample_dot_a2)) = [0, 1, 2] \<and>
   fileAddrs (files (addFile sample_graph2 sample_dot_a2)) = [2, 1]"
proof -
  have h1: "reachable sample_graph2"
    using sample_graph2_reachable_pre by (rule reachable_pre_reachable)
  have h2: "map_get (files sample_graph2) (f_filePath sample_dot_a2) =
              Some (storedRecord emptyGraph sample_dot_a)"
    by code_simp
  have e1: "map s_name (symbolValues (addFile sample_graph2 sample_dot_a2)) =
              [''add'', ''add'', ''sub'']"
    by code_simp
  have e2: "map snd (symbols (addFile sample_graph2 sample_dot_a2)) = [0, 1, 2]"
    by code_simp
  have e3: "fileAddrs (files (addFile sample_graph2 sample_dot_a2)) = [2, 1]"
    by code_simp
  from addFile_without_removal[OF h1 h2] h1 h2 e1 e2 e3 show ?thesis by simp
qed

subsection \<open>Reference completeness\<close>

text \<open>
  C1 (reference completeness), on the scenario of the specification: \<open>a.ts\<close> declares
  the function \<open>add\<close> and \<open>b.ts\<close> imports \<open>add\<close> from \<open>./a\<close>. In whichever order the two
  records are added, the reference list of \<open>add\<close> holds its definition reference only:
  \<open>isSymbolFromFile\<close> looks for the text \<open>./a\<close> inside \<open>a.ts\<close> and does not find it.
\<close>

theorem reference_completeness_scenario:
  "map s_references (getSymbolsByType (addFile (addFile emptyGraph sample_a) sample_b) FunctionT) =
     [[definitionReference (sample_function ''a.ts'' ''add'')]] \<and>
   map s_references (getSymbolsByType (addFile (addFile emptyGraph sample_b) sample_a) FunctionT) =
     [[definitionReference (sample_function ''a.ts'' ''add'')]] \<and>
   isSymbolFromFile ''./a'' ''a.ts'' = False"
proof -
  have 1: "map s_references (getSymbolsByType (addFile (addFile emptyGraph sample_a) sample_b) FunctionT) =
     [[definitionReference (sample_function ''a.ts'' ''add'')]]"
    by code_simp
  have 2: "map s_references (getSymbolsByType (addFile (addFile emptyGraph sample_b) sample_a) FunctionT) =
     [[definitionReference (sample_function ''a.ts'' ''add'')]]"
    by code_simp
  have 3: "isSymbolFromFile ''./a'' ''a.ts'' = False"
    by code_simp
  from 1 2 3 show ?thesis by simp
qed

end
